theory Spec2Isabelle
  imports Main "HOL-Library.Word"
begin

unbundle bit_operations_syntax

section \<open>Numbers, bitwise operators and strings of the source language\<close>

text \<open>
  The driver (\<^verbatim>\<open>src/main.ts\<close>, namespace \<^verbatim>\<open>MFRC522\<close>; the unnamed second file holds the
  same functions under the names \<^verbatim>\<open>reset\<close>, \<^verbatim>\<open>request\<close>, \<^verbatim>\<open>anticoll\<close>, \<^verbatim>\<open>getCardUID\<close>) computes
  on TypeScript numbers that are always integers here: they are modelled as \<open>int\<close>.
  The bitwise operators \<^verbatim>\<open>&\<close>, \<^verbatim>\<open>|\<close>, \<^verbatim>\<open>~\<close> and \<^verbatim>\<open><<\<close> convert their operands to signed
  32-bit integers and return a signed 32-bit integer; the shift count is taken modulo 32.
\<close>

definition toInt32 :: "int \<Rightarrow> 32 word" where
  "toInt32 x = word_of_int x"

definition js_and :: "int \<Rightarrow> int \<Rightarrow> int" where
  "js_and a b = sint (toInt32 a AND toInt32 b)"

definition js_or :: "int \<Rightarrow> int \<Rightarrow> int" where
  "js_or a b = sint (toInt32 a OR toInt32 b)"

definition js_not :: "int \<Rightarrow> int" where
  "js_not a = sint (NOT (toInt32 a))"

definition js_shl :: "int \<Rightarrow> int \<Rightarrow> int" where
  "js_shl a n = sint (push_bit (unat (toInt32 n AND 31)) (toInt32 a))"

text \<open>
  \<^verbatim>\<open>n.toString(16)\<close> of an integer: lowercase digits, no padding, a minus sign for a
  negative number. \<^verbatim>\<open>s.toUpperCase()\<close> on the ASCII strings that \<^verbatim>\<open>toString(16)\<close> produces.
\<close>

definition hexDigit :: "nat \<Rightarrow> char" where
  "hexDigit d = ''0123456789abcdef'' ! d"

fun toHex :: "nat \<Rightarrow> string" where
  "toHex n = (if n < 16 then [hexDigit n] else toHex (n div 16) @ [hexDigit (n mod 16)])"

declare toHex.simps [simp del]

definition toString16 :: "int \<Rightarrow> string" where
  "toString16 x = (if x < 0 then CHR ''-'' # toHex (nat (- x)) else toHex (nat x))"

definition toUpperChar :: "char \<Rightarrow> char" where
  "toUpperChar c =
     (if (97::nat) \<le> of_char c \<and> of_char c \<le> (122::nat)
      then char_of (of_char c - (32::nat)) else c)"

definition toUpperCase :: "string \<Rightarrow> string" where
  "toUpperCase s = map toUpperChar s"

section \<open>The platform interface\<close>

text \<open>
  The driver reaches the hardware only through \<^verbatim>\<open>pins.digitalWritePin\<close>, \<^verbatim>\<open>pins.spiWrite\<close>,
  \<^verbatim>\<open>pins.spiRead\<close> and \<^verbatim>\<open>basic.pause\<close>. These calls are a parameter of the model: a record of
  functions on a world \<open>'w\<close> (the chip, the bus and the clock). Every driver function takes
  the world and returns the new one.
\<close>

datatype DigitalPin = P3 | C4 | C13 | C14 | C15

definition NSS :: DigitalPin where "NSS = P3"
definition RST :: DigitalPin where "RST = C4"
definition MOSI :: DigitalPin where "MOSI = C14"
definition MISO :: DigitalPin where "MISO = C15"
definition SCK :: DigitalPin where "SCK = C13"

record 'w platform =
  digitalWritePin :: "DigitalPin \<Rightarrow> int \<Rightarrow> 'w \<Rightarrow> 'w"
  spiWrite :: "int \<Rightarrow> 'w \<Rightarrow> 'w"
  spiRead :: "int \<Rightarrow> 'w \<Rightarrow> int \<times> 'w"
  pause :: "int \<Rightarrow> 'w \<Rightarrow> 'w"

section \<open>Constants of the driver\<close>

definition CommandReg :: int where "CommandReg = 0x01"
definition ComIEnReg :: int where "ComIEnReg = 0x02"
definition ComIrqReg :: int where "ComIrqReg = 0x04"
definition FIFODataReg :: int where "FIFODataReg = 0x09"
definition FIFOLevelReg :: int where "FIFOLevelReg = 0x0A"
definition ControlReg :: int where "ControlReg = 0x0C"
definition BitFramingReg :: int where "BitFramingReg = 0x0D"
definition ModeReg :: int where "ModeReg = 0x11"
definition TxControlReg :: int where "TxControlReg = 0x14"

definition PCD_IDLE :: int where "PCD_IDLE = 0x00"
definition PCD_SOFTRESET :: int where "PCD_SOFTRESET = 0x0F"
definition PCD_TRANSCEIVE :: int where "PCD_TRANSCEIVE = 0x0C"

definition PICC_REQIDL :: int where "PICC_REQIDL = 0x26"
definition PICC_ANTICOLL :: int where "PICC_ANTICOLL = 0x93"

section \<open>Register access and bit masks\<close>

definition writeReg :: "'w platform \<Rightarrow> int \<Rightarrow> int \<Rightarrow> 'w \<Rightarrow> 'w" where
  "writeReg h addr val w0 =
     (let w = digitalWritePin h NSS 0 w0;
          address = js_and (js_shl addr 1) 0x7E;
          w = spiWrite h address w;
          w = spiWrite h val w
      in digitalWritePin h NSS 1 w)"

definition readReg :: "'w platform \<Rightarrow> int \<Rightarrow> 'w \<Rightarrow> int \<times> 'w" where
  "readReg h addr w0 =
     (let w = digitalWritePin h NSS 0 w0;
          address = js_or (js_and (js_shl addr 1) 0x7E) 0x80;
          w = spiWrite h address w;
          (val, w) = spiRead h 0 w;
          w = digitalWritePin h NSS 1 w
      in (val, w))"

definition setBitMask :: "'w platform \<Rightarrow> int \<Rightarrow> int \<Rightarrow> 'w \<Rightarrow> 'w" where
  "setBitMask h addr bmask w0 =
     (let (current, w) = readReg h addr w0
      in writeReg h addr (js_or current bmask) w)"

definition clearBitMask :: "'w platform \<Rightarrow> int \<Rightarrow> int \<Rightarrow> 'w \<Rightarrow> 'w" where
  "clearBitMask h addr bmask w0 =
     (let (current, w) = readReg h addr w0
      in writeReg h addr (js_and current (js_not bmask)) w)"

section \<open>Soft reset\<close>

text \<open>
  \<^verbatim>\<open>resetModule\<close> ends in a \<^verbatim>\<open>while\<close> loop with no bound. The loop is a partial function:
  \<open>None\<close> is the run that never leaves the loop.
\<close>

partial_function (option) resetModule_loop :: "'w platform \<Rightarrow> 'w \<Rightarrow> 'w option" where
  "resetModule_loop h w0 =
     (case readReg h CommandReg w0 of
        (v, w) \<Rightarrow>
          if js_and v (js_shl 1 4) \<noteq> 0
          then resetModule_loop h (pause h 1 w)
          else Some w)"

definition resetModule :: "'w platform \<Rightarrow> 'w \<Rightarrow> 'w option" where
  "resetModule h w0 =
     (let w = writeReg h CommandReg PCD_SOFTRESET w0;
          w = pause h 50 w
      in resetModule_loop h w)"

section \<open>Card presence and anti-collision\<close>

text \<open>
  The \<^verbatim>\<open>do ... while\<close> loop of \<^verbatim>\<open>requestCard\<close>: the body runs, then the condition
  \<^verbatim>\<open>i > 0 && ((irq & 0x30) === 0)\<close> decides whether it runs again. It returns the last
  values of \<^verbatim>\<open>i\<close> and \<^verbatim>\<open>irq\<close>.
\<close>

function requestCard_loop :: "'w platform \<Rightarrow> int \<Rightarrow> 'w \<Rightarrow> int \<times> int \<times> 'w" where
  "requestCard_loop h i w0 =
     (let w = pause h 1 w0;
          (irq, w) = readReg h ComIrqReg w;
          i' = i - 1
      in if i' > 0 \<and> js_and irq 0x30 = 0
         then requestCard_loop h i' w
         else (i', irq, w))"
  by pat_completeness auto
termination
  by (relation "measure (\<lambda>(h, i, w). nat i)") auto

declare requestCard_loop.simps [simp del]

definition requestCard :: "'w platform \<Rightarrow> int \<Rightarrow> 'w \<Rightarrow> int \<times> 'w" where
  "requestCard h reqMode w0 =
     (let w = writeReg h BitFramingReg 0x07 w0;
          w = writeReg h FIFOLevelReg 0x80 w;
          w = digitalWritePin h NSS 0 w;
          addr = js_and (js_shl FIFODataReg 1) 0x7E;
          w = spiWrite h addr w;
          w = spiWrite h reqMode w;
          w = digitalWritePin h NSS 1 w;
          w = writeReg h CommandReg PCD_TRANSCEIVE w;
          w = setBitMask h BitFramingReg 0x80 w;
          w = pause h 10 w;
          w = clearBitMask h BitFramingReg 0x80 w;
          (i, irq, w) = requestCard_loop h 25 w;
          (len, w) = readReg h FIFOLevelReg w
      in if len = 2 then (1, w) else (0, w))"

text \<open>
  The two \<^verbatim>\<open>for\<close> loops of \<^verbatim>\<open>anticollision\<close>: the first pushes \<^verbatim>\<open>fifoLevel\<close> reads of
  \<^verbatim>\<open>FIFODataReg\<close> onto \<^verbatim>\<open>uid\<close>, the second walks \<^verbatim>\<open>uid\<close> from index 0 and appends the
  padded, upper-cased hexadecimal form of each element to \<^verbatim>\<open>uidStr\<close>.
\<close>

function anticollision_read :: "'w platform \<Rightarrow> int \<Rightarrow> int \<Rightarrow> int list \<Rightarrow> 'w \<Rightarrow> int list \<times> 'w" where
  "anticollision_read h i fifoLevel uid w0 =
     (if i < fifoLevel
      then (let (v, w) = readReg h FIFODataReg w0
            in anticollision_read h (i + 1) fifoLevel (uid @ [v]) w)
      else (uid, w0))"
  by pat_completeness auto
termination
  by (relation "measure (\<lambda>(h, i, fifoLevel, uid, w). nat (fifoLevel - i))") auto

declare anticollision_read.simps [simp del]

fun anticollision_format :: "int list \<Rightarrow> string \<Rightarrow> string" where
  "anticollision_format [] uidStr = uidStr"
| "anticollision_format (x # xs) uidStr =
     (let hex = toString16 x;
          hex = (if length hex < 2 then ''0'' @ hex else hex)
      in anticollision_format xs (uidStr @ toUpperCase hex))"

definition anticollision :: "'w platform \<Rightarrow> 'w \<Rightarrow> string \<times> 'w" where
  "anticollision h w0 =
     (let w = writeReg h FIFOLevelReg 0x80 w0;
          w = digitalWritePin h NSS 0 w;
          addr = js_and (js_shl FIFODataReg 1) 0x7E;
          w = spiWrite h addr w;
          w = spiWrite h PICC_ANTICOLL w;
          w = spiWrite h 0x20 w;
          w = digitalWritePin h NSS 1 w;
          w = writeReg h CommandReg PCD_TRANSCEIVE w;
          w = setBitMask h BitFramingReg 0x80 w;
          w = pause h 10 w;
          w = clearBitMask h BitFramingReg 0x80 w;
          (fifoLevel, w) = readReg h FIFOLevelReg w
      in if fifoLevel \<noteq> 5 then ('''', w)
         else (let (uid, w) = anticollision_read h 0 fifoLevel [] w
               in (anticollision_format uid '''', w)))"

definition getID :: "'w platform \<Rightarrow> 'w \<Rightarrow> string \<times> 'w" where
  "getID h w0 =
     (let (status, w) = requestCard h PICC_REQIDL w0
      in if status = 1 then anticollision h w else ('''', w))"

section \<open>A scripted chip with a bus log\<close>

text \<open>
  The first world the driver is run against: every platform call is appended to a log,
  and the \<open>n\<close>-th call of \<^verbatim>\<open>pins.spiRead\<close> receives the byte \<open>miso n\<close> of a given
  stream. Whatever a chip answers in a run is such a stream, so a statement for every
  stream is a statement for every chip. A received byte is an \<open>8 word\<close>; the driver sees
  it as a number from 0 to 255.
\<close>

datatype event =
    DigitalWrite DigitalPin int
  | SpiWrite int
  | SpiRead int "8 word"
  | Pause int

record sim =
  log :: "event list"
  nread :: nat

definition sim_platform :: "(nat \<Rightarrow> 8 word) \<Rightarrow> sim platform" where
  "sim_platform miso =
     \<lparr> digitalWritePin = (\<lambda>p v s. s\<lparr>log := log s @ [DigitalWrite p v]\<rparr>),
       spiWrite = (\<lambda>b s. s\<lparr>log := log s @ [SpiWrite b]\<rparr>),
       spiRead = (\<lambda>x s. (uint (miso (nread s)),
                         s\<lparr>log := log s @ [SpiRead x (miso (nread s))],
                           nread := Suc (nread s)\<rparr>)),
       pause = (\<lambda>n s. s\<lparr>log := log s @ [Pause n]\<rparr>) \<rparr>"

text \<open>
  The bus transactions of a register write and of a register read, as they appear in
  the log.
\<close>

definition write_events :: "int \<Rightarrow> int \<Rightarrow> event list" where
  "write_events addr val =
     [DigitalWrite NSS 0, SpiWrite (js_and (js_shl addr 1) 0x7E), SpiWrite val,
      DigitalWrite NSS 1]"

definition read_events :: "int \<Rightarrow> 8 word \<Rightarrow> event list" where
  "read_events addr b =
     [DigitalWrite NSS 0, SpiWrite (js_or (js_and (js_shl addr 1) 0x7E) 0x80), SpiRead 0 b,
      DigitalWrite NSS 1]"

text \<open>
  The register reads of a log, in order: an address byte followed at once by a received
  byte is a read of the register in bits 6 to 1 of the address byte.
\<close>

fun reg_reads :: "event list \<Rightarrow> (int \<times> 8 word) list" where
  "reg_reads (SpiWrite a # SpiRead x b # es) = ((a div 2) mod 64, b) # reg_reads es"
| "reg_reads (e # es) = reg_reads es"
| "reg_reads [] = []"

text \<open>The events of the interrupt polls of \<^verbatim>\<open>requestCard\<close> that received the bytes \<open>irqs\<close>.\<close>

definition poll_events :: "8 word list \<Rightarrow> event list" where
  "poll_events irqs = concat (map (\<lambda>b. Pause 1 # read_events ComIrqReg b) irqs)"

text \<open>
  The events of the polls of \<^verbatim>\<open>resetModule\<close> that found the chip busy: each is followed
  by a pause of one unit.
\<close>

definition busy_events :: "8 word list \<Rightarrow> event list" where
  "busy_events bs = concat (map (\<lambda>b. read_events CommandReg b @ [Pause 1]) bs)"

text \<open>The events of the reads of \<^verbatim>\<open>FIFODataReg\<close> that received the bytes \<open>bs\<close>.\<close>

definition fifo_events :: "8 word list \<Rightarrow> event list" where
  "fifo_events bs = concat (map (read_events FIFODataReg) bs)"

text \<open>
  The events of \<^verbatim>\<open>anticollision\<close> up to the StartSend toggle, when the two reads of
  \<^verbatim>\<open>BitFramingReg\<close> received \<open>b1\<close> and \<open>b2\<close>.
\<close>

definition anticollision_send_events :: "8 word \<Rightarrow> 8 word \<Rightarrow> event list" where
  "anticollision_send_events b1 b2 =
     write_events FIFOLevelReg 0x80
     @ [DigitalWrite NSS 0, SpiWrite 0x12, SpiWrite PICC_ANTICOLL, SpiWrite 0x20,
        DigitalWrite NSS 1]
     @ write_events CommandReg PCD_TRANSCEIVE
     @ read_events BitFramingReg b1
     @ write_events BitFramingReg (js_or (uint b1) 0x80)
     @ [Pause 10]
     @ read_events BitFramingReg b2
     @ write_events BitFramingReg (js_and (uint b2) (js_not 0x80))"

text \<open>The events a run has added to the log, from the world before and the world after.\<close>

definition new_events :: "sim \<Rightarrow> sim \<Rightarrow> event list" where
  "new_events s t = drop (length (log s)) (log t)"

text \<open>The byte received by the last register read of a run.\<close>

definition final_read :: "sim \<Rightarrow> sim \<Rightarrow> 8 word" where
  "final_read s t = snd (last (reg_reads (new_events s t)))"

text \<open>A finite script of received bytes, continued with zeros, and the fresh world.\<close>

definition script :: "8 word list \<Rightarrow> nat \<Rightarrow> 8 word" where
  "script bs n = (if n < length bs then bs ! n else 0)"

definition sim0 :: sim where
  "sim0 = \<lparr>log = [], nread = 0\<rparr>"

section \<open>A simulated register file\<close>

text \<open>
  The second world: a chip whose registers are plain storage, so that a read returns the
  value last written. It decodes the bus as the MFRC522 does: chip-select low starts a
  frame; the first byte of a frame is the address byte (bit 7 set for a read, bits 6 to 1
  the register); in a write frame every further byte is stored in the register, in a read
  frame \<^verbatim>\<open>pins.spiRead\<close> receives the register's value.
\<close>

record regfile =
  regs :: "int \<Rightarrow> 8 word"
  selected :: bool
  frame :: "int option"

definition regfile_platform :: "regfile platform" where
  "regfile_platform =
     \<lparr> digitalWritePin = (\<lambda>p v c.
         if p = NSS then c\<lparr>selected := (v = 0), frame := None\<rparr> else c),
       spiWrite = (\<lambda>b c.
         if \<not> selected c then c
         else (case frame c of
                 None \<Rightarrow> c\<lparr>frame := Some (b mod 256)\<rparr>
               | Some a \<Rightarrow>
                   if a < 128 then c\<lparr>regs := (regs c)((a div 2) mod 64 := word_of_int b)\<rparr>
                   else c)),
       spiRead = (\<lambda>x c.
         (case frame c of
            None \<Rightarrow> 0
          | Some a \<Rightarrow> if selected c \<and> 128 \<le> a then uint (regs c ((a div 2) mod 64)) else 0,
          c)),
       pause = (\<lambda>n c. c) \<rparr>"

section \<open>The UID format of the specification\<close>

text \<open>
  The specification's encoding of a byte: two uppercase hexadecimal digits, the high
  nibble first. The driver's loop is compared with it.
\<close>

definition upperDigit :: "nat \<Rightarrow> char" where
  "upperDigit d = ''0123456789ABCDEF'' ! d"

definition spec_hex2 :: "8 word \<Rightarrow> string" where
  "spec_hex2 b = [upperDigit (unat b div 16), upperDigit (unat b mod 16)]"

definition spec_uid :: "8 word list \<Rightarrow> string" where
  "spec_uid bs = concat (map spec_hex2 bs)"

section \<open>Facts about the bitwise operators\<close>

lemma sint_small: "0 \<le> k \<Longrightarrow> k < 2 ^ 31 \<Longrightarrow> sint (word_of_int k :: 32 word) = k"
  by (simp add: sint_sbintrunc' signed_take_bit_int_eq_self)

lemma toInt32_sint: "toInt32 (sint w) = w"
  by (simp add: toInt32_def)

lemma mod64_take_bit: "(addr::int) mod 64 = take_bit 6 addr"
  by (simp add: take_bit_eq_mod)

lemma take_bit_toInt32: "take_bit 6 (word_of_int addr :: 32 word) = word_of_int (addr mod 64)"
  unfolding mod64_take_bit by (rule bit_word_eqI) (auto simp add: bit_simps)

lemma frame_word:
  "push_bit 1 (word_of_int addr :: 32 word) AND 0x7E = word_of_int (2 * (addr mod 64))"
proof -
  have "(126 :: 32 word) = push_bit 1 (mask 6)"
    by (simp add: mask_eq_exp_minus_1)
  then have "push_bit 1 (word_of_int addr :: 32 word) AND 0x7E =
      push_bit 1 (word_of_int addr AND mask 6)"
    by (simp only: push_bit_and)
  also have "(word_of_int addr :: 32 word) AND mask 6 = take_bit 6 (word_of_int addr)"
    by (simp only: take_bit_eq_mask)
  finally show ?thesis
    by (simp only: take_bit_toInt32) (simp add: push_bit_eq_mult)
qed

lemma write_frame: "js_and (js_shl addr 1) 0x7E = 2 * (addr mod 64)"
proof -
  have "js_and (js_shl addr 1) 0x7E = sint (push_bit 1 (word_of_int addr :: 32 word) AND 0x7E)"
    by (simp add: js_and_def js_shl_def toInt32_sint) (simp add: toInt32_def)
  also have "\<dots> = sint (word_of_int (2 * (addr mod 64)) :: 32 word)"
    by (simp only: frame_word)
  also have "\<dots> = 2 * (addr mod 64)"
    by (rule sint_small) auto
  finally show ?thesis .
qed

lemma read_frame: "js_or (js_and (js_shl addr 1) 0x7E) 0x80 = 128 + 2 * (addr mod 64)"
proof -
  let ?x = "word_of_int (2 * (addr mod 64)) :: 32 word"
  have "?x AND 0x80 = 0"
    by (subst frame_word [symmetric]) (simp add: and.assoc)
  then have "?x + 0x80 = ?x OR 0x80"
    by (rule disjunctive_add_eq_or)
  then have "?x OR 0x80 = ?x + 0x80"
    by simp
  also have "\<dots> = word_of_int (128 + 2 * (addr mod 64))"
    by simp
  finally have "js_or (2 * (addr mod 64)) 0x80 =
      sint (word_of_int (128 + 2 * (addr mod 64)) :: 32 word)"
    by (simp add: js_or_def toInt32_def)
  also have "\<dots> = 128 + 2 * (addr mod 64)"
    by (rule sint_small) auto
  finally show ?thesis
    by (simp only: write_frame)
qed

lemma sint_ucast_byte: "sint (ucast (w :: 8 word) :: 32 word) = uint w"
proof -
  have "uint w < 2 ^ 8"
    using uint_lt2p [of w] by simp
  then have "uint w < 2 ^ 31"
    by simp
  then have "sint (word_of_int (uint w) :: 32 word) = uint w"
    by (intro sint_small) simp_all
  then show ?thesis
    by simp
qed

lemma toInt32_uint_and:
  "toInt32 (uint (b :: 8 word)) AND toInt32 k = ucast (b AND word_of_int k)"
  unfolding toInt32_def
  by (rule bit_word_eqI) (auto simp add: bit_simps dest: bit_imp_le_length)

lemma js_and_byte: "js_and (uint (b :: 8 word)) k = uint (b AND word_of_int k)"
  by (simp only: js_and_def toInt32_uint_and sint_ucast_byte)

lemma irq_test: "(js_and (uint (b :: 8 word)) 0x30 = 0) = (b AND 0x30 = 0)"
  by (simp add: js_and_byte word_uint_eq_iff)

lemma js_shl_1_4: "js_shl 1 4 = 16"
  by (simp add: js_shl_def toInt32_def)

lemma busy_test: "(js_and (uint (b :: 8 word)) (js_shl 1 4) \<noteq> 0) = bit b 4"
proof -
  have "(b AND 16 = 0) = (\<not> bit b 4)"
    using and_exp_eq_0_iff_not_bit [of b 4] by simp
  then show ?thesis
    by (simp add: js_shl_1_4 js_and_byte word_uint_eq_iff)
qed

lemma byte_js_or: "(word_of_int (js_or a b) :: 8 word) = word_of_int a OR word_of_int b"
  unfolding js_or_def toInt32_def
  by (rule bit_word_eqI) (simp add: bit_simps)

lemma byte_js_and_not:
  "(word_of_int (js_and a (js_not b)) :: 8 word) = word_of_int a AND NOT (word_of_int b)"
  unfolding js_and_def js_not_def toInt32_def
  by (rule bit_word_eqI) (simp add: bit_simps)

section \<open>The driver on the scripted chip\<close>

lemma digitalWritePin_sim:
  "digitalWritePin (sim_platform miso) p v s = s\<lparr>log := log s @ [DigitalWrite p v]\<rparr>"
  by (simp add: sim_platform_def)

lemma spiWrite_sim: "spiWrite (sim_platform miso) b s = s\<lparr>log := log s @ [SpiWrite b]\<rparr>"
  by (simp add: sim_platform_def)

lemma pause_sim: "pause (sim_platform miso) n s = s\<lparr>log := log s @ [Pause n]\<rparr>"
  by (simp add: sim_platform_def)

lemma writeReg_sim:
  "writeReg (sim_platform miso) addr val s = s\<lparr>log := log s @ write_events addr val\<rparr>"
  by (simp add: writeReg_def sim_platform_def write_events_def)

lemma readReg_sim:
  "readReg (sim_platform miso) addr s =
     (uint (miso (nread s)),
      s\<lparr>log := log s @ read_events addr (miso (nread s)), nread := Suc (nread s)\<rparr>)"
  by (simp add: readReg_def sim_platform_def read_events_def)

lemma setBitMask_sim:
  "setBitMask (sim_platform miso) addr m s =
     s\<lparr>log := log s @ read_events addr (miso (nread s))
                  @ write_events addr (js_or (uint (miso (nread s))) m),
       nread := Suc (nread s)\<rparr>"
  by (simp add: setBitMask_def readReg_sim writeReg_sim)

lemma clearBitMask_sim:
  "clearBitMask (sim_platform miso) addr m s =
     s\<lparr>log := log s @ read_events addr (miso (nread s))
                  @ write_events addr (js_and (uint (miso (nread s))) (js_not m)),
       nread := Suc (nread s)\<rparr>"
  by (simp add: clearBitMask_def readReg_sim writeReg_sim)

lemma map_upt_Suc: "map f [n..<n + Suc k] = f n # map f [Suc n..<Suc n + k]"
  by (simp add: upt_conv_Cons del: upt_Suc)

lemma requestCard_loop_sim:
  "\<exists>k. 1 \<le> k \<and> k \<le> Suc n
      \<and> (\<forall>j. Suc j < k \<longrightarrow> miso (nread s + j) AND 0x30 = 0)
      \<and> (k < Suc n \<longrightarrow> miso (nread s + k - 1) AND 0x30 \<noteq> 0)
      \<and> requestCard_loop (sim_platform miso) (int (Suc n)) s =
          (int (Suc n) - int k, uint (miso (nread s + k - 1)),
           s\<lparr>log := log s @ poll_events (map miso [nread s..<nread s + k]),
             nread := nread s + k\<rparr>)"
proof (induction n arbitrary: s)
  case 0
  show ?case
    by (rule exI [of _ 1])
       (simp add: requestCard_loop.simps [of _ 1] readReg_sim pause_sim poll_events_def)
next
  case (Suc n)
  let ?b = "miso (nread s)"
  let ?s2 = "s\<lparr>log := log s @ Pause 1 # read_events ComIrqReg ?b, nread := Suc (nread s)\<rparr>"
  have step: "requestCard_loop (sim_platform miso) (int (Suc (Suc n))) s =
      (if ?b AND 0x30 = 0 then requestCard_loop (sim_platform miso) (int (Suc n)) ?s2
       else (int (Suc n), uint ?b, ?s2))"
    by (subst requestCard_loop.simps) (simp add: readReg_sim pause_sim irq_test)
  show ?case
  proof (cases "?b AND 0x30 = 0")
    case False
    then show ?thesis
      using step by (intro exI [of _ 1]) (simp add: poll_events_def)
  next
    case True
    from Suc.IH [of ?s2] obtain k where
      one: "1 \<le> k" and len: "k \<le> Suc n"
      and clr: "\<forall>j. Suc j < k \<longrightarrow> miso (nread ?s2 + j) AND 0x30 = 0"
      and stop: "k < Suc n \<longrightarrow> miso (nread ?s2 + k - 1) AND 0x30 \<noteq> 0"
      and run: "requestCard_loop (sim_platform miso) (int (Suc n)) ?s2 =
          (int (Suc n) - int k, uint (miso (nread ?s2 + k - 1)),
           ?s2\<lparr>log := log ?s2 @ poll_events (map miso [nread ?s2..<nread ?s2 + k]),
               nread := nread ?s2 + k\<rparr>)"
      by blast
    have clr': "\<forall>j. Suc j < Suc k \<longrightarrow> miso (nread s + j) AND 0x30 = 0"
    proof (intro allI impI)
      fix j
      assume "Suc j < Suc k"
      then show "miso (nread s + j) AND 0x30 = 0"
        using clr True by (cases j) simp_all
    qed
    have stop': "Suc k < Suc (Suc n) \<longrightarrow> miso (nread s + Suc k - 1) AND 0x30 \<noteq> 0"
      using stop one by simp
    have run': "requestCard_loop (sim_platform miso) (int (Suc (Suc n))) s =
          (int (Suc (Suc n)) - int (Suc k), uint (miso (nread s + Suc k - 1)),
           s\<lparr>log := log s @ poll_events (map miso [nread s..<nread s + Suc k]),
             nread := nread s + Suc k\<rparr>)"
      using True one step run map_upt_Suc [of miso "nread s" k]
      by (simp add: poll_events_def del: upt_Suc)
    show ?thesis
      apply (rule exI [of _ "Suc k"])
      apply (intro conjI)
      subgoal by simp
      subgoal using len by simp
      subgoal by (rule clr')
      subgoal by (rule stop')
      subgoal by (rule run')
      done
  qed
qed

lemma requestCard_sim:
  "\<exists>k. 1 \<le> k \<and> k \<le> 25
      \<and> (\<forall>j. Suc j < k \<longrightarrow> miso (nread s + 2 + j) AND 0x30 = 0)
      \<and> (k < 25 \<longrightarrow> miso (nread s + 2 + k - 1) AND 0x30 \<noteq> 0)
      \<and> requestCard (sim_platform miso) reqMode s =
          (if miso (nread s + 2 + k) = 2 then 1 else 0,
           s\<lparr>log := log s
                  @ write_events BitFramingReg 0x07
                  @ write_events FIFOLevelReg 0x80
                  @ [DigitalWrite NSS 0, SpiWrite (js_and (js_shl FIFODataReg 1) 0x7E),
                     SpiWrite reqMode, DigitalWrite NSS 1]
                  @ write_events CommandReg PCD_TRANSCEIVE
                  @ read_events BitFramingReg (miso (nread s))
                  @ write_events BitFramingReg (js_or (uint (miso (nread s))) 0x80)
                  @ [Pause 10]
                  @ read_events BitFramingReg (miso (nread s + 1))
                  @ write_events BitFramingReg (js_and (uint (miso (nread s + 1))) (js_not 0x80))
                  @ poll_events (map miso [nread s + 2..<nread s + 2 + k])
                  @ read_events FIFOLevelReg (miso (nread s + 2 + k)),
             nread := nread s + 3 + k\<rparr>)"
proof -
  let ?s1 = "s\<lparr>log := log s
                  @ write_events BitFramingReg 0x07
                  @ write_events FIFOLevelReg 0x80
                  @ [DigitalWrite NSS 0, SpiWrite (js_and (js_shl FIFODataReg 1) 0x7E),
                     SpiWrite reqMode, DigitalWrite NSS 1]
                  @ write_events CommandReg PCD_TRANSCEIVE
                  @ read_events BitFramingReg (miso (nread s))
                  @ write_events BitFramingReg (js_or (uint (miso (nread s))) 0x80)
                  @ [Pause 10]
                  @ read_events BitFramingReg (miso (nread s + 1))
                  @ write_events BitFramingReg (js_and (uint (miso (nread s + 1))) (js_not 0x80)),
             nread := nread s + 2\<rparr>"
  have unfold: "requestCard (sim_platform miso) reqMode s =
      (case requestCard_loop (sim_platform miso) 25 ?s1 of
         (i, irq, w) \<Rightarrow>
           (case readReg (sim_platform miso) FIFOLevelReg w of
              (len, w') \<Rightarrow> if len = 2 then (1, w') else (0, w')))"
    by (simp add: requestCard_def writeReg_sim setBitMask_sim clearBitMask_sim pause_sim
          digitalWritePin_sim spiWrite_sim Let_def)
  from requestCard_loop_sim [of 24 miso ?s1] obtain k where
      one: "1 \<le> k" and len: "k \<le> 25"
      and clr: "\<forall>j. Suc j < k \<longrightarrow> miso (nread ?s1 + j) AND 0x30 = 0"
      and stop: "k < 25 \<longrightarrow> miso (nread ?s1 + k - 1) AND 0x30 \<noteq> 0"
      and run: "requestCard_loop (sim_platform miso) 25 ?s1 =
          (25 - int k, uint (miso (nread ?s1 + k - 1)),
           ?s1\<lparr>log := log ?s1 @ poll_events (map miso [nread ?s1..<nread ?s1 + k]),
               nread := nread ?s1 + k\<rparr>)"
    by auto
  have two: "(uint (b :: 8 word) = 2) = (b = 2)" for b
    by (simp add: word_uint_eq_iff)
  show ?thesis
    apply (rule exI [of _ k])
    apply (intro conjI)
    subgoal by (rule one)
    subgoal by (rule len)
    subgoal using clr by simp
    subgoal using stop by simp
    subgoal using unfold run by (simp add: readReg_sim two ac_simps del: upt_Suc)
    done
qed

section \<open>Reading the log\<close>

lemma reg_reads_write [simp]: "reg_reads (write_events a v @ es) = reg_reads es"
  by (simp add: write_events_def)

lemma reg_reads_read [simp]: "reg_reads (read_events a b @ es) = (a mod 64, b) # reg_reads es"
  by (simp add: read_events_def read_frame)

lemma reg_reads_read_only [simp]: "reg_reads (read_events a b) = [(a mod 64, b)]"
  using reg_reads_read [of a b "[]"] by simp

lemma reg_reads_Pause [simp]: "reg_reads (Pause n # es) = reg_reads es"
  by simp

lemma reg_reads_DigitalWrite [simp]: "reg_reads (DigitalWrite p v # es) = reg_reads es"
  by simp

lemma reg_reads_poll [simp]:
  "reg_reads (poll_events irqs @ es) = map (Pair ComIrqReg) irqs @ reg_reads es"
  by (induction irqs) (simp_all add: poll_events_def ComIrqReg_def)

lemma new_events_append [simp]: "new_events s (s\<lparr>log := log s @ evs, nread := n\<rparr>) = evs"
  by (simp add: new_events_def)

lemma script_nth [simp]: "n < length bs \<Longrightarrow> script bs n = bs ! n"
  by (simp add: script_def)

section \<open>The hexadecimal format\<close>

lemma upper_digits: "\<forall>d \<in> set [0..<16]. toUpperChar (hexDigit d) = upperDigit d"
  by code_simp

lemma toUpper_hexDigit: "d < 16 \<Longrightarrow> toUpperChar (hexDigit d) = upperDigit d"
  using upper_digits by simp

lemma upperDigit_0: "upperDigit 0 = CHR ''0''"
  by (simp add: upperDigit_def)

lemma toUpper_0: "toUpperChar CHR ''0'' = CHR ''0''"
  by (simp add: toUpperChar_def)

lemma toHex_small: "n < 16 \<Longrightarrow> toHex n = [hexDigit n]"
  by (simp add: toHex.simps)

lemma toHex_byte: "16 \<le> n \<Longrightarrow> n < 256 \<Longrightarrow> toHex n = [hexDigit (n div 16), hexDigit (n mod 16)]"
  by (subst toHex.simps) (simp add: toHex_small)

lemma format_byte:
  "toUpperCase (let hex = toString16 (uint (b :: 8 word));
                    hex = (if length hex < 2 then ''0'' @ hex else hex) in hex) = spec_hex2 b"
proof -
  have lt: "unat b < 256"
    by (rule order_less_le_trans [OF unsigned_less]) simp
  have s: "toString16 (uint b) = toHex (unat b)"
    by (simp add: toString16_def)
  show ?thesis
  proof (cases "unat b < 16")
    case True
    then show ?thesis
      by (simp add: s toHex_small toUpperCase_def spec_hex2_def toUpper_hexDigit upperDigit_0
            toUpper_0)
  next
    case False
    then have "16 \<le> unat b" by simp
    moreover have "unat b div 16 < 16" using lt by simp
    ultimately show ?thesis
      using lt by (simp add: s toHex_byte toUpperCase_def spec_hex2_def toUpper_hexDigit)
  qed
qed

lemma anticollision_format_bytes:
  "anticollision_format (map uint bs) acc = acc @ spec_uid bs"
proof (induction bs arbitrary: acc)
  case Nil
  show ?case by (simp add: spec_uid_def)
next
  case (Cons b bs)
  show ?case
    using format_byte [of b] by (simp add: Cons.IH spec_uid_def Let_def)
qed

lemma length_spec_uid: "length (spec_uid bs) = 2 * length bs"
  by (induction bs) (simp_all add: spec_uid_def spec_hex2_def)

section \<open>Anti-collision on the scripted chip\<close>

lemma anticollision_read_sim:
  "nat (fifoLevel - i) = n \<Longrightarrow>
   anticollision_read (sim_platform miso) i fifoLevel uid s =
     (uid @ map (\<lambda>j. uint (miso j)) [nread s..<nread s + n],
      s\<lparr>log := log s @ fifo_events (map miso [nread s..<nread s + n]),
        nread := nread s + n\<rparr>)"
proof (induction n arbitrary: i uid s)
  case 0
  then show ?case
    by (subst anticollision_read.simps) (simp add: fifo_events_def)
next
  case (Suc n)
  let ?s2 = "s\<lparr>log := log s @ read_events FIFODataReg (miso (nread s)), nread := Suc (nread s)\<rparr>"
  from Suc.prems have lt: "i < fifoLevel" and n: "nat (fifoLevel - (i + 1)) = n"
    by simp_all
  have "anticollision_read (sim_platform miso) i fifoLevel uid s =
      anticollision_read (sim_platform miso) (i + 1) fifoLevel (uid @ [uint (miso (nread s))]) ?s2"
    using lt by (subst anticollision_read.simps) (simp add: readReg_sim)
  also have "\<dots> = (uid @ map (\<lambda>j. uint (miso j)) [nread s..<nread s + Suc n],
      s\<lparr>log := log s @ fifo_events (map miso [nread s..<nread s + Suc n]),
        nread := nread s + Suc n\<rparr>)"
    using map_upt_Suc [of miso "nread s" n] map_upt_Suc [of "\<lambda>j. uint (miso j)" "nread s" n]
    by (simp add: Suc.IH [OF n] fifo_events_def del: upt_Suc)
  finally show ?case .
qed

lemma reg_reads_fifo [simp]:
  "reg_reads (fifo_events bs @ es) = map (Pair FIFODataReg) bs @ reg_reads es"
  by (induction bs) (simp_all add: fifo_events_def FIFODataReg_def)

lemma reg_reads_send [simp]:
  "reg_reads (anticollision_send_events b1 b2 @ es) =
     (BitFramingReg, b1) # (BitFramingReg, b2) # reg_reads es"
  by (simp add: anticollision_send_events_def BitFramingReg_def)

lemma anticollision_send_sim:
  "anticollision (sim_platform miso) s =
      (case readReg (sim_platform miso) FIFOLevelReg (s\<lparr>log := log s
                   @ anticollision_send_events (miso (nread s)) (miso (nread s + 1)),
              nread := nread s + 2\<rparr>) of (fifoLevel, w) \<Rightarrow>
       if fifoLevel \<noteq> 5 then ('''', w) 
       else (let (uid, w) = anticollision_read (sim_platform miso) 0 fifoLevel [] w
             in (anticollision_format uid '''', w)))"
proof -
  have fifo: "js_and (js_shl FIFODataReg 1) 0x7E = 0x12"
    by (simp add: write_frame FIFODataReg_def)
  show ?thesis
    by (simp add: anticollision_def writeReg_sim setBitMask_sim clearBitMask_sim pause_sim
          digitalWritePin_sim spiWrite_sim Let_def fifo 
          anticollision_send_events_def)
qed

lemma uint_eq_5: "(uint (b :: 8 word) = 5) = (b = 5)"
  by (simp add: word_uint_eq_iff)

lemma anticollision_sim:
  "anticollision (sim_platform miso) s =
     (if miso (nread s + 2) \<noteq> 5
      then ('''',
            s\<lparr>log := log s
                   @ anticollision_send_events (miso (nread s)) (miso (nread s + 1))
                   @ read_events FIFOLevelReg (miso (nread s + 2)),
              nread := nread s + 3\<rparr>)
      else (spec_uid (map miso [nread s + 3..<nread s + 8]),
            s\<lparr>log := log s
                   @ anticollision_send_events (miso (nread s)) (miso (nread s + 1))
                   @ read_events FIFOLevelReg 5
                   @ fifo_events (map miso [nread s + 3..<nread s + 8]),
              nread := nread s + 8\<rparr>))"
proof (cases "miso (nread s + 2) = 5")
  case False
  then show ?thesis
    by (simp add: anticollision_send_sim readReg_sim uint_eq_5)
next
  case True
  let ?s1 = "s\<lparr>log := log s
                   @ anticollision_send_events (miso (nread s)) (miso (nread s + 1))
                   @ read_events FIFOLevelReg 5,
              nread := nread s + 3\<rparr>"
  have a: "anticollision (sim_platform miso) s =
      (let (uid, w) = anticollision_read (sim_platform miso) 0 5 [] ?s1
       in (anticollision_format uid '''', w))"
    using True by (simp add: anticollision_send_sim readReg_sim numeral_3_eq_3)
  have rd: "anticollision_read (sim_platform miso) 0 5 [] ?s1 =
      (map (\<lambda>j. uint (miso j)) [nread s + 3..<nread s + 8],
       ?s1\<lparr>log := log ?s1 @ fifo_events (map miso [nread s + 3..<nread s + 8]),
           nread := nread s + 8\<rparr>)"
    using anticollision_read_sim [of 5 0 5 miso "[]" ?s1] by (simp add: ac_simps del: upt_Suc)
  have fmt: "anticollision_format (map (\<lambda>j. uint (miso j)) xs) '''' = spec_uid (map miso xs)" for xs
    using anticollision_format_bytes [of "map miso xs" "''''"] by (simp add: comp_def)
  show ?thesis
    unfolding a rd using True by (simp add: fmt del: upt_Suc)
qed

section \<open>The entry point and the cases of the presence poll\<close>

lemma getID_unfold:
  "getID h w =
     (if fst (requestCard h PICC_REQIDL w) = 1
      then anticollision h (snd (requestCard h PICC_REQIDL w))
      else ('''', snd (requestCard h PICC_REQIDL w)))"
  by (simp add: getID_def split: prod.split)

text \<open>What \<^verbatim>\<open>requestCard\<close> returns and reads, without the trace.\<close>

lemma requestCard_sim_reads:
  "\<exists>k. 1 \<le> k \<and> k \<le> 25
      \<and> (\<forall>j. Suc j < k \<longrightarrow> miso (nread s + 2 + j) AND 0x30 = 0)
      \<and> (k < 25 \<longrightarrow> miso (nread s + 2 + k - 1) AND 0x30 \<noteq> 0)
      \<and> fst (requestCard (sim_platform miso) reqMode s) =
            (if miso (nread s + 2 + k) = 2 then 1 else 0)
      \<and> nread (snd (requestCard (sim_platform miso) reqMode s)) = nread s + 3 + k
      \<and> reg_reads (new_events s (snd (requestCard (sim_platform miso) reqMode s))) =
            [(BitFramingReg, miso (nread s)), (BitFramingReg, miso (nread s + 1))]
            @ map (\<lambda>j. (ComIrqReg, miso j)) [nread s + 2..<nread s + 2 + k]
            @ [(FIFOLevelReg, miso (nread s + 2 + k))]"
proof -
  from requestCard_sim [of miso s reqMode] obtain k where
      one: "1 \<le> k" and len: "k \<le> 25"
      and clr: "\<forall>j. Suc j < k \<longrightarrow> miso (nread s + 2 + j) AND 0x30 = 0"
      and stop: "k < 25 \<longrightarrow> miso (nread s + 2 + k - 1) AND 0x30 \<noteq> 0"
      and run: "requestCard (sim_platform miso) reqMode s =
          (if miso (nread s + 2 + k) = 2 then 1 else 0,
           s\<lparr>log := log s
                  @ write_events BitFramingReg 0x07
                  @ write_events FIFOLevelReg 0x80
                  @ [DigitalWrite NSS 0, SpiWrite (js_and (js_shl FIFODataReg 1) 0x7E),
                     SpiWrite reqMode, DigitalWrite NSS 1]
                  @ write_events CommandReg PCD_TRANSCEIVE
                  @ read_events BitFramingReg (miso (nread s))
                  @ write_events BitFramingReg (js_or (uint (miso (nread s))) 0x80)
                  @ [Pause 10]
                  @ read_events BitFramingReg (miso (nread s + 1))
                  @ write_events BitFramingReg (js_and (uint (miso (nread s + 1))) (js_not 0x80))
                  @ poll_events (map miso [nread s + 2..<nread s + 2 + k])
                  @ read_events FIFOLevelReg (miso (nread s + 2 + k)),
             nread := nread s + 3 + k\<rparr>)"
    by blast
  have reads: "reg_reads (new_events s (snd (requestCard (sim_platform miso) reqMode s))) =
          [(BitFramingReg, miso (nread s)), (BitFramingReg, miso (nread s + 1))]
          @ map (\<lambda>j. (ComIrqReg, miso j)) [nread s + 2..<nread s + 2 + k]
          @ [(FIFOLevelReg, miso (nread s + 2 + k))]"
    unfolding run snd_conv new_events_append
    by (simp add: BitFramingReg_def FIFOLevelReg_def comp_def del: upt_Suc)
  show ?thesis
    apply (rule exI [of _ k])
    apply (intro conjI)
    subgoal by (rule one)
    subgoal by (rule len)
    subgoal by (rule clr)
    subgoal by (rule stop)
    subgoal by (simp add: run)
    subgoal by (simp add: run)
    subgoal by (rule reads)
    done
qed

text \<open>The interrupt arrives at the first poll.\<close>

lemma requestCard_sim_first:
  assumes "miso (nread s + 2) AND 0x30 \<noteq> 0"
  shows "fst (requestCard (sim_platform miso) reqMode s) = (if miso (nread s + 3) = 2 then 1 else 0)"
    and "nread (snd (requestCard (sim_platform miso) reqMode s)) = nread s + 4"
    and "reg_reads (new_events s (snd (requestCard (sim_platform miso) reqMode s))) =
            [(BitFramingReg, miso (nread s)), (BitFramingReg, miso (nread s + 1)),
             (ComIrqReg, miso (nread s + 2)), (FIFOLevelReg, miso (nread s + 3))]"
proof -
  from requestCard_sim_reads [of miso s reqMode] obtain k where
      one: "1 \<le> k"
      and clr: "\<forall>j. Suc j < k \<longrightarrow> miso (nread s + 2 + j) AND 0x30 = 0"
      and res: "fst (requestCard (sim_platform miso) reqMode s) =
            (if miso (nread s + 2 + k) = 2 then 1 else 0)"
      and cnt: "nread (snd (requestCard (sim_platform miso) reqMode s)) = nread s + 3 + k"
      and reads: "reg_reads (new_events s (snd (requestCard (sim_platform miso) reqMode s))) =
            [(BitFramingReg, miso (nread s)), (BitFramingReg, miso (nread s + 1))]
            @ map (\<lambda>j. (ComIrqReg, miso j)) [nread s + 2..<nread s + 2 + k]
            @ [(FIFOLevelReg, miso (nread s + 2 + k))]"
    by blast
  have k: "k = 1"
  proof (rule ccontr)
    assume "k \<noteq> 1"
    with one have "Suc 0 < k" by simp
    with clr have "miso (nread s + 2 + 0) AND 0x30 = 0" by blast
    with assms show False by simp
  qed
  show "fst (requestCard (sim_platform miso) reqMode s) = (if miso (nread s + 3) = 2 then 1 else 0)"
    using res by (simp add: k numeral_3_eq_3)
  show "nread (snd (requestCard (sim_platform miso) reqMode s)) = nread s + 4"
    using cnt by (simp add: k)
  show "reg_reads (new_events s (snd (requestCard (sim_platform miso) reqMode s))) =
            [(BitFramingReg, miso (nread s)), (BitFramingReg, miso (nread s + 1)),
             (ComIrqReg, miso (nread s + 2)), (FIFOLevelReg, miso (nread s + 3))]"
    using reads by (simp add: k numeral_3_eq_3)
qed

text \<open>No interrupt in 25 polls.\<close>

lemma requestCard_sim_timeout:
  assumes "\<forall>j<25. miso (nread s + 2 + j) AND 0x30 = 0"
  shows "fst (requestCard (sim_platform miso) reqMode s) = (if miso (nread s + 27) = 2 then 1 else 0)"
    and "nread (snd (requestCard (sim_platform miso) reqMode s)) = nread s + 28"
    and "reg_reads (new_events s (snd (requestCard (sim_platform miso) reqMode s))) =
            [(BitFramingReg, miso (nread s)), (BitFramingReg, miso (nread s + 1))]
            @ map (\<lambda>j. (ComIrqReg, miso j)) [nread s + 2..<nread s + 27]
            @ [(FIFOLevelReg, miso (nread s + 27))]"
proof -
  from requestCard_sim_reads [of miso s reqMode] obtain k where
      one: "1 \<le> k" and len: "k \<le> 25"
      and stop: "k < 25 \<longrightarrow> miso (nread s + 2 + k - 1) AND 0x30 \<noteq> 0"
      and res: "fst (requestCard (sim_platform miso) reqMode s) =
            (if miso (nread s + 2 + k) = 2 then 1 else 0)"
      and cnt: "nread (snd (requestCard (sim_platform miso) reqMode s)) = nread s + 3 + k"
      and reads: "reg_reads (new_events s (snd (requestCard (sim_platform miso) reqMode s))) =
            [(BitFramingReg, miso (nread s)), (BitFramingReg, miso (nread s + 1))]
            @ map (\<lambda>j. (ComIrqReg, miso j)) [nread s + 2..<nread s + 2 + k]
            @ [(FIFOLevelReg, miso (nread s + 2 + k))]"
    by blast
  have k: "k = 25"
  proof (rule ccontr)
    assume "k \<noteq> 25"
    with len have lt: "k < 25" by simp
    with stop have "miso (nread s + 2 + k - 1) AND 0x30 \<noteq> 0" by blast
    moreover have "miso (nread s + 2 + (k - 1)) AND 0x30 = 0"
      using assms lt by simp
    ultimately show False
      using one by simp
  qed
  have i27: "nread s + 2 + 25 = nread s + 27" and i28: "nread s + 3 + 25 = nread s + 28"
    by simp_all
  show "fst (requestCard (sim_platform miso) reqMode s) = (if miso (nread s + 27) = 2 then 1 else 0)"
    using res unfolding k i27 .
  show "nread (snd (requestCard (sim_platform miso) reqMode s)) = nread s + 28"
    using cnt unfolding k i28 .
  show "reg_reads (new_events s (snd (requestCard (sim_platform miso) reqMode s))) =
            [(BitFramingReg, miso (nread s)), (BitFramingReg, miso (nread s + 1))]
            @ map (\<lambda>j. (ComIrqReg, miso j)) [nread s + 2..<nread s + 27]
            @ [(FIFOLevelReg, miso (nread s + 27))]"
    using reads unfolding k i27 .
qed

lemma upperDigit_mem: "d < 16 \<Longrightarrow> upperDigit d \<in> set ''0123456789ABCDEF''"
  unfolding upperDigit_def by (rule nth_mem) simp

lemma set_spec_hex2: "set (spec_hex2 b) \<subseteq> set ''0123456789ABCDEF''"
proof -
  have "unat b < 256"
    by (rule order_less_le_trans [OF unsigned_less]) simp
  then have "unat b div 16 < 16" and "unat b mod 16 < 16"
    by simp_all
  then show ?thesis
    using upperDigit_mem [of "unat b div 16"] upperDigit_mem [of "unat b mod 16"]
    by (simp add: spec_hex2_def)
qed

lemma set_spec_uid: "set (spec_uid bs) \<subseteq> set ''0123456789ABCDEF''"
proof (induction bs)
  case Nil
  show ?case by (simp add: spec_uid_def)
next
  case (Cons b bs)
  have "spec_uid (b # bs) = spec_hex2 b @ spec_uid bs"
    by (simp add: spec_uid_def)
  then show ?case
    using set_spec_hex2 [of b] Cons.IH by (simp only: set_append Un_subset_iff simp_thms)
qed

lemma reg_reads_fifo_only [simp]: "reg_reads (fifo_events bs) = map (Pair FIFODataReg) bs"
  using reg_reads_fifo [of bs "[]"] by simp

lemma requestCard_final_read:
  "fst (requestCard (sim_platform miso) reqMode s) =
     (if final_read s (snd (requestCard (sim_platform miso) reqMode s)) = 2 then 1 else 0)
   \<and> fst (last (reg_reads (new_events s (snd (requestCard (sim_platform miso) reqMode s))))) =
       FIFOLevelReg"
proof -
  from requestCard_sim_reads [of miso s reqMode] obtain k where
      res: "fst (requestCard (sim_platform miso) reqMode s) =
            (if miso (nread s + 2 + k) = 2 then 1 else 0)"
      and reads: "reg_reads (new_events s (snd (requestCard (sim_platform miso) reqMode s))) =
            [(BitFramingReg, miso (nread s)), (BitFramingReg, miso (nread s + 1))]
            @ map (\<lambda>j. (ComIrqReg, miso j)) [nread s + 2..<nread s + 2 + k]
            @ [(FIFOLevelReg, miso (nread s + 2 + k))]"
    by blast
  have "last (reg_reads (new_events s (snd (requestCard (sim_platform miso) reqMode s)))) =
      (FIFOLevelReg, miso (nread s + 2 + k))"
    unfolding reads by (simp del: upt_Suc)
  then show ?thesis
    using res by (simp add: final_read_def)
qed

lemma format_small:
  assumes "unat (b :: 8 word) < 16"
  shows "anticollision_format [uint b] '''' = [CHR ''0'', upperDigit (unat b)]"
proof -
  have "anticollision_format (map uint [b]) '''' = spec_uid [b]"
    using anticollision_format_bytes [of "[b]" "''''"] by simp
  then show ?thesis
    using assms by (simp add: spec_uid_def spec_hex2_def upperDigit_0)
qed

lemma getID_sim_cases:
  "fst (getID (sim_platform miso) s) = ''''
   \<or> (\<exists>bs. length bs = 5 \<and> fst (getID (sim_platform miso) s) = spec_uid bs)"
proof (cases "fst (requestCard (sim_platform miso) PICC_REQIDL s) = 1")
  case False
  then show ?thesis by (simp add: getID_unfold)
next
  case True
  let ?t = "snd (requestCard (sim_platform miso) PICC_REQIDL s)"
  have run: "getID (sim_platform miso) s = anticollision (sim_platform miso) ?t"
    using True by (simp add: getID_unfold)
  show ?thesis
  proof (cases "miso (nread ?t + 2) = 5")
    case False
    then show ?thesis by (simp add: run anticollision_sim)
  next
    case True
    have "length (map miso [nread ?t + 3..<nread ?t + 8]) = 5"
      by simp
    moreover have "fst (getID (sim_platform miso) s) =
        spec_uid (map miso [nread ?t + 3..<nread ?t + 8])"
      using True by (simp add: run anticollision_sim del: upt_Suc)
    ultimately show ?thesis by blast
  qed
qed

section \<open>The soft reset on the scripted chip\<close>

lemma resetModule_loop_step:
  "resetModule_loop (sim_platform miso) s =
     (if bit (miso (nread s)) 4
      then resetModule_loop (sim_platform miso)
             (s\<lparr>nread := Suc (nread s),
                log := log s @ read_events CommandReg (miso (nread s)) @ [Pause 1]\<rparr>)
      else Some (s\<lparr>log := log s @ read_events CommandReg (miso (nread s)),
                   nread := Suc (nread s)\<rparr>))"
  by (cases "bit (miso (nread s)) 4"; subst resetModule_loop.simps)
     (simp_all add: readReg_sim pause_sim busy_test)

lemma resetModule_loop_returns:
  "(\<forall>j<k. bit (miso (nread s + j)) 4) \<Longrightarrow> \<not> bit (miso (nread s + k)) 4 \<Longrightarrow>
   resetModule_loop (sim_platform miso) s =
     Some (s\<lparr>log := log s @ busy_events (map miso [nread s..<nread s + k])
                     @ read_events CommandReg (miso (nread s + k)),
             nread := nread s + k + 1\<rparr>)"
proof (induction k arbitrary: s)
  case 0
  then show ?case
    by (subst resetModule_loop_step) (simp add: busy_events_def)
next
  case (Suc k)
  let ?s2 = "s\<lparr>nread := Suc (nread s),
                log := log s @ read_events CommandReg (miso (nread s)) @ [Pause 1]\<rparr>"
  have busy: "bit (miso (nread s)) 4"
    using Suc.prems(1) [rule_format, of 0] by simp
  have rest: "\<forall>j<k. bit (miso (nread ?s2 + j)) 4"
  proof (intro allI impI)
    fix j
    assume "j < k"
    then have "Suc j < Suc k" by simp
    with Suc.prems(1) have "bit (miso (nread s + Suc j)) 4" by blast
    then show "bit (miso (nread ?s2 + j)) 4" by simp
  qed
  have last: "\<not> bit (miso (nread ?s2 + k)) 4"
    using Suc.prems(2) by simp
  have "resetModule_loop (sim_platform miso) s = resetModule_loop (sim_platform miso) ?s2"
    using busy by (subst resetModule_loop_step) simp
  also have "\<dots> = Some (?s2\<lparr>log := log ?s2 @ busy_events (map miso [nread ?s2..<nread ?s2 + k])
                     @ read_events CommandReg (miso (nread ?s2 + k)),
             nread := nread ?s2 + k + 1\<rparr>)"
    by (rule Suc.IH [OF rest last])
  also have "\<dots> = Some (s\<lparr>log := log s @ busy_events (map miso [nread s..<nread s + Suc k])
                     @ read_events CommandReg (miso (nread s + Suc k)),
             nread := nread s + Suc k + 1\<rparr>)"
    using map_upt_Suc [of miso "nread s" k]
    by (simp add: busy_events_def del: upt_Suc)
  finally show ?case .
qed

lemma resetModule_loop_Some:
  assumes "resetModule_loop h s = Some t" and "h = sim_platform miso"
  shows "\<exists>j. \<not> bit (miso (nread s + j)) 4"
proof -
  have "h = sim_platform miso \<longrightarrow> (\<exists>j. \<not> bit (miso (nread s + j)) 4)"
  proof (rule resetModule_loop.raw_induct
      [where P = "\<lambda>h s t. h = sim_platform miso \<longrightarrow> (\<exists>j. \<not> bit (miso (nread s + j)) 4)",
       OF _ assms(1)])
    fix loop :: "sim platform \<Rightarrow> sim \<Rightarrow> sim option" and h s t
    assume IH: "\<And>h s t. loop h s = Some t \<Longrightarrow>
        h = sim_platform miso \<longrightarrow> (\<exists>j. \<not> bit (miso (nread s + j)) 4)"
      and body: "(case readReg h CommandReg s of
          (v, w) \<Rightarrow> if js_and v (js_shl 1 4) \<noteq> 0 then loop h (pause h 1 w) else Some w) =
        Some t"
    show "h = sim_platform miso \<longrightarrow> (\<exists>j. \<not> bit (miso (nread s + j)) 4)"
    proof
      assume h: "h = sim_platform miso"
      show "\<exists>j. \<not> bit (miso (nread s + j)) 4"
      proof (cases "bit (miso (nread s)) 4")
        case False
        then have "\<not> bit (miso (nread s + 0)) 4"
          by simp
        then show ?thesis
          by (rule exI)
      next
        case True
        let ?s2 = "s\<lparr>nread := Suc (nread s),
                log := log s @ read_events CommandReg (miso (nread s)) @ [Pause 1]\<rparr>"
        have "loop h ?s2 = Some t"
          using body True h by (simp add: readReg_sim pause_sim busy_test)
        from IH [OF this] h obtain j where "\<not> bit (miso (nread ?s2 + j)) 4"
          by blast
        then have "\<not> bit (miso (nread s + Suc j)) 4"
          by simp
        then show ?thesis
          by (rule exI)
      qed
    qed
  qed
  with assms(2) show ?thesis
    by blast
qed

lemma resetModule_sim:
  "resetModule (sim_platform miso) s =
     resetModule_loop (sim_platform miso)
       (s\<lparr>log := log s @ write_events CommandReg PCD_SOFTRESET @ [Pause 50]\<rparr>)"
  by (simp add: resetModule_def writeReg_sim pause_sim)

lemma resetModule_loop_None:
  assumes "\<forall>j. bit (miso (nread s + j)) 4"
  shows "resetModule_loop (sim_platform miso) s = None"
proof (rule ccontr)
  assume "resetModule_loop (sim_platform miso) s \<noteq> None"
  then obtain t where "resetModule_loop (sim_platform miso) s = Some t"
    by blast
  from resetModule_loop_Some [OF this refl] assms show False
    by blast
qed

section \<open>The driver on the simulated register file\<close>

lemma frame_ranges:
  "0 \<le> 2 * (addr mod 64)" "2 * (addr mod 64) < (128 :: int)"
  "(2 * (addr mod 64)) mod 256 = 2 * (addr mod (64 :: int))"
  "(128 + 2 * (addr mod 64)) mod 256 = 128 + 2 * (addr mod (64 :: int))"
  "(2 * (addr mod 64)) div 2 mod 64 = addr mod (64 :: int)"
  "(128 + 2 * (addr mod 64)) div 2 mod 64 = addr mod (64 :: int)"
  by simp_all

lemma writeReg_regfile:
  "writeReg regfile_platform addr val c =
     c\<lparr>regs := (regs c)(addr mod 64 := word_of_int val), selected := False, frame := None\<rparr>"
  by (simp add: writeReg_def regfile_platform_def write_frame frame_ranges NSS_def)

lemma readReg_regfile:
  "readReg regfile_platform addr c =
     (uint (regs c (addr mod 64)), c\<lparr>selected := False, frame := None\<rparr>)"
  by (simp add: readReg_def regfile_platform_def read_frame frame_ranges NSS_def)

lemma regfile_read_after_write:
  "fst (readReg regfile_platform addr (writeReg regfile_platform addr val c)) = val mod 256"
  by (simp add: readReg_regfile writeReg_regfile uint_word_of_int)

lemma setBitMask_regfile:
  "setBitMask regfile_platform addr m c =
     c\<lparr>regs := (regs c)(addr mod 64 := regs c (addr mod 64) OR word_of_int m),
       selected := False, frame := None\<rparr>"
  by (simp add: setBitMask_def readReg_regfile writeReg_regfile byte_js_or)

lemma clearBitMask_regfile:
  "clearBitMask regfile_platform addr m c =
     c\<lparr>regs := (regs c)(addr mod 64 := regs c (addr mod 64) AND NOT (word_of_int m)),
       selected := False, frame := None\<rparr>"
  by (simp add: clearBitMask_def readReg_regfile writeReg_regfile byte_js_and_not)

section \<open>Claims on the register access layer\<close>

text \<open>
  Claim C6. For every register address, \<^verbatim>\<open>writeReg\<close> drives chip-select low, transmits
  the frame byte \<^verbatim>\<open>(addr << 1) & 0x7E\<close> and then the value, and releases chip-select;
  \<^verbatim>\<open>readReg\<close> drives chip-select low, transmits \<^verbatim>\<open>((addr << 1) & 0x7E) | 0x80\<close>, receives
  one byte, releases chip-select and returns exactly that byte. The write frame is
  twice the address modulo 64 (top bit 0), the read frame is that plus 128 (top bit 1).
\<close>

theorem register_frames:
  "writeReg (sim_platform miso) addr val s =
     s\<lparr>log := log s @ [DigitalWrite NSS 0, SpiWrite (js_and (js_shl addr 1) 0x7E),
                       SpiWrite val, DigitalWrite NSS 1]\<rparr>
   \<and> readReg (sim_platform miso) addr s =
     (uint (miso (nread s)),
      s\<lparr>log := log s @ [DigitalWrite NSS 0, SpiWrite (js_or (js_and (js_shl addr 1) 0x7E) 0x80),
                        SpiRead 0 (miso (nread s)), DigitalWrite NSS 1],
        nread := Suc (nread s)\<rparr>)
   \<and> js_and (js_shl addr 1) 0x7E = 2 * (addr mod 64)
   \<and> js_or (js_and (js_shl addr 1) 0x7E) 0x80 = 128 + 2 * (addr mod 64)"
proof (intro conjI)
  show "writeReg (sim_platform miso) addr val s =
     s\<lparr>log := log s @ [DigitalWrite NSS 0, SpiWrite (js_and (js_shl addr 1) 0x7E),
                       SpiWrite val, DigitalWrite NSS 1]\<rparr>"
    by (simp add: writeReg_def sim_platform_def)
  show "readReg (sim_platform miso) addr s =
     (uint (miso (nread s)),
      s\<lparr>log := log s @ [DigitalWrite NSS 0, SpiWrite (js_or (js_and (js_shl addr 1) 0x7E) 0x80),
                        SpiRead 0 (miso (nread s)), DigitalWrite NSS 1],
        nread := Suc (nread s)\<rparr>)"
    by (simp add: readReg_def sim_platform_def)
  show "js_and (js_shl addr 1) 0x7E = 2 * (addr mod 64)"
    by (rule write_frame)
  show "js_or (js_and (js_shl addr 1) 0x7E) 0x80 = 128 + 2 * (addr mod 64)"
    by (rule read_frame)
qed

section \<open>Claims on the presence poll\<close>

text \<open>
  Claim C4. After the Transceive command and the StartSend toggle, \<^verbatim>\<open>requestCard\<close> reads
  \<^verbatim>\<open>ComIrqReg\<close> \<open>k\<close> times with \<open>1 \<le> k \<le> 25\<close>: every read but the last had both bits of
  mask \<^verbatim>\<open>0x30\<close> clear, and when \<open>k < 25\<close> the last read had one of them set. It then reads
  \<^verbatim>\<open>FIFOLevelReg\<close> once and returns 1 if that read is exactly 2, and 0 otherwise. The
  statement gives the whole bus trace of the call and the register reads in it.
\<close>

theorem requestCard_polls:
  "\<exists>k. 1 \<le> k \<and> k \<le> 25
    \<and> (\<forall>j. Suc j < k \<longrightarrow> miso (nread s + 2 + j) AND 0x30 = 0)
    \<and> (k < 25 \<longrightarrow> miso (nread s + 2 + k - 1) AND 0x30 \<noteq> 0)
    \<and> new_events s (snd (requestCard (sim_platform miso) reqMode s)) =
          write_events BitFramingReg 0x07
          @ write_events FIFOLevelReg 0x80
          @ [DigitalWrite NSS 0, SpiWrite 0x12, SpiWrite reqMode, DigitalWrite NSS 1]
          @ write_events CommandReg PCD_TRANSCEIVE
          @ read_events BitFramingReg (miso (nread s))
          @ write_events BitFramingReg (js_or (uint (miso (nread s))) 0x80)
          @ [Pause 10]
          @ read_events BitFramingReg (miso (nread s + 1))
          @ write_events BitFramingReg (js_and (uint (miso (nread s + 1))) (js_not 0x80))
          @ poll_events (map miso [nread s + 2..<nread s + 2 + k])
          @ read_events FIFOLevelReg (miso (nread s + 2 + k))
    \<and> reg_reads (new_events s (snd (requestCard (sim_platform miso) reqMode s))) =
          [(BitFramingReg, miso (nread s)), (BitFramingReg, miso (nread s + 1))]
          @ map (\<lambda>j. (ComIrqReg, miso j)) [nread s + 2..<nread s + 2 + k]
          @ [(FIFOLevelReg, miso (nread s + 2 + k))]
    \<and> fst (requestCard (sim_platform miso) reqMode s) =
          (if miso (nread s + 2 + k) = 2 then 1 else 0)"
proof -
  from requestCard_sim [of miso s reqMode] obtain k where
      one: "1 \<le> k" and len: "k \<le> 25"
      and clr: "\<forall>j. Suc j < k \<longrightarrow> miso (nread s + 2 + j) AND 0x30 = 0"
      and stop: "k < 25 \<longrightarrow> miso (nread s + 2 + k - 1) AND 0x30 \<noteq> 0"
      and run: "requestCard (sim_platform miso) reqMode s =
          (if miso (nread s + 2 + k) = 2 then 1 else 0,
           s\<lparr>log := log s
                  @ write_events BitFramingReg 0x07
                  @ write_events FIFOLevelReg 0x80
                  @ [DigitalWrite NSS 0, SpiWrite (js_and (js_shl FIFODataReg 1) 0x7E),
                     SpiWrite reqMode, DigitalWrite NSS 1]
                  @ write_events CommandReg PCD_TRANSCEIVE
                  @ read_events BitFramingReg (miso (nread s))
                  @ write_events BitFramingReg (js_or (uint (miso (nread s))) 0x80)
                  @ [Pause 10]
                  @ read_events BitFramingReg (miso (nread s + 1))
                  @ write_events BitFramingReg (js_and (uint (miso (nread s + 1))) (js_not 0x80))
                  @ poll_events (map miso [nread s + 2..<nread s + 2 + k])
                  @ read_events FIFOLevelReg (miso (nread s + 2 + k)),
             nread := nread s + 3 + k\<rparr>)"
    by blast
  have fifo: "js_and (js_shl FIFODataReg 1) 0x7E = 0x12"
    by (simp add: write_frame FIFODataReg_def)
  have evs: "new_events s (snd (requestCard (sim_platform miso) reqMode s)) =
          write_events BitFramingReg 0x07
          @ write_events FIFOLevelReg 0x80
          @ [DigitalWrite NSS 0, SpiWrite 0x12, SpiWrite reqMode, DigitalWrite NSS 1]
          @ write_events CommandReg PCD_TRANSCEIVE
          @ read_events BitFramingReg (miso (nread s))
          @ write_events BitFramingReg (js_or (uint (miso (nread s))) 0x80)
          @ [Pause 10]
          @ read_events BitFramingReg (miso (nread s + 1))
          @ write_events BitFramingReg (js_and (uint (miso (nread s + 1))) (js_not 0x80))
          @ poll_events (map miso [nread s + 2..<nread s + 2 + k])
          @ read_events FIFOLevelReg (miso (nread s + 2 + k))"
    unfolding run snd_conv new_events_append fifo ..
  have reads: "reg_reads (new_events s (snd (requestCard (sim_platform miso) reqMode s))) =
          [(BitFramingReg, miso (nread s)), (BitFramingReg, miso (nread s + 1))]
          @ map (\<lambda>j. (ComIrqReg, miso j)) [nread s + 2..<nread s + 2 + k]
          @ [(FIFOLevelReg, miso (nread s + 2 + k))]"
    unfolding evs
    by (simp add: BitFramingReg_def FIFOLevelReg_def comp_def del: upt_Suc)
  show ?thesis
    apply (rule exI [of _ k])
    apply (intro conjI)
    subgoal by (rule one)
    subgoal by (rule len)
    subgoal by (rule clr)
    subgoal by (rule stop)
    subgoal by (rule evs)
    subgoal by (rule reads)
    subgoal by (simp add: run)
    done
qed

text \<open>
  A run of C4: the first interrupt read has \<^verbatim>\<open>IdleIRq\<close> set, so there is one poll, and the
  FIFO level read is 2.
\<close>

theorem requestCard_polls_witness:
  "fst (requestCard (sim_platform (script [0, 0, 0x10, 2])) PICC_REQIDL sim0) = 1
   \<and> reg_reads (new_events sim0
         (snd (requestCard (sim_platform (script [0, 0, 0x10, 2])) PICC_REQIDL sim0))) =
       [(BitFramingReg, 0), (BitFramingReg, 0), (ComIrqReg, 0x10), (FIFOLevelReg, 2)]"
proof -
  let ?miso = "script [0, 0, 0x10, 2]"
  let ?run = "requestCard (sim_platform ?miso) PICC_REQIDL sim0"
  from requestCard_polls [of ?miso sim0 PICC_REQIDL] obtain k where
      one: "1 \<le> k"
      and clr: "\<forall>j. Suc j < k \<longrightarrow> ?miso (nread sim0 + 2 + j) AND 0x30 = 0"
      and reads: "reg_reads (new_events sim0 (snd ?run)) =
          [(BitFramingReg, ?miso (nread sim0)), (BitFramingReg, ?miso (nread sim0 + 1))]
          @ map (\<lambda>j. (ComIrqReg, ?miso j)) [nread sim0 + 2..<nread sim0 + 2 + k]
          @ [(FIFOLevelReg, ?miso (nread sim0 + 2 + k))]"
      and res: "fst ?run = (if ?miso (nread sim0 + 2 + k) = 2 then 1 else 0)"
    by blast
  have k: "k = 1"
  proof (rule ccontr)
    assume "k \<noteq> 1"
    with one have "Suc 0 < k" by simp
    with clr have "?miso (nread sim0 + 2 + 0) AND 0x30 = 0" by blast
    then show False by (simp add: sim0_def)
  qed
  show ?thesis
    using res reads by (simp add: k sim0_def)
qed

text \<open>
  Claim C9. The value \<^verbatim>\<open>requestCard\<close> returns depends only on the byte received by its
  last register read, which is the read of \<^verbatim>\<open>FIFOLevelReg\<close>: two runs (any two chips,
  request modes and starting worlds) whose final read agrees return the same value,
  whatever \<^verbatim>\<open>ComIrqReg\<close> answered. In particular, when all 25 interrupt polls have both
  bits of mask \<^verbatim>\<open>0x30\<close> clear and the following \<^verbatim>\<open>FIFOLevelReg\<close> read is 2,
  \<^verbatim>\<open>requestCard\<close> returns 1 and \<^verbatim>\<open>getID\<close> goes on to \<^verbatim>\<open>anticollision\<close>.
\<close>

theorem requestCard_ignores_irq:
  "fst (requestCard (sim_platform miso) reqMode s) =
     (if final_read s (snd (requestCard (sim_platform miso) reqMode s)) = 2 then 1 else 0)
   \<and> fst (last (reg_reads (new_events s (snd (requestCard (sim_platform miso) reqMode s))))) =
       FIFOLevelReg
   \<and> (final_read s (snd (requestCard (sim_platform miso) reqMode s)) =
        final_read s' (snd (requestCard (sim_platform miso') reqMode' s'))
      \<longrightarrow> fst (requestCard (sim_platform miso) reqMode s) =
          fst (requestCard (sim_platform miso') reqMode' s'))
   \<and> ((\<forall>j<25. miso (nread s + 2 + j) AND 0x30 = 0) \<and> miso (nread s + 27) = 2
      \<longrightarrow> fst (requestCard (sim_platform miso) reqMode s) = 1
        \<and> reg_reads (new_events s (snd (requestCard (sim_platform miso) reqMode s))) =
            [(BitFramingReg, miso (nread s)), (BitFramingReg, miso (nread s + 1))]
            @ map (\<lambda>j. (ComIrqReg, miso j)) [nread s + 2..<nread s + 27]
            @ [(FIFOLevelReg, 2)]
        \<and> getID (sim_platform miso) s =
            anticollision (sim_platform miso)
              (snd (requestCard (sim_platform miso) PICC_REQIDL s)))"
proof (intro conjI impI)
  show "fst (requestCard (sim_platform miso) reqMode s) =
     (if final_read s (snd (requestCard (sim_platform miso) reqMode s)) = 2 then 1 else 0)"
    using requestCard_final_read [of miso reqMode s] by blast
  show "fst (last (reg_reads (new_events s (snd (requestCard (sim_platform miso) reqMode s))))) =
       FIFOLevelReg"
    using requestCard_final_read [of miso reqMode s] by blast
next
  assume "final_read s (snd (requestCard (sim_platform miso) reqMode s)) =
        final_read s' (snd (requestCard (sim_platform miso') reqMode' s'))"
  then show "fst (requestCard (sim_platform miso) reqMode s) =
          fst (requestCard (sim_platform miso') reqMode' s')"
    using requestCard_final_read [of miso reqMode s] requestCard_final_read [of miso' reqMode' s']
    by simp
next
  assume a: "(\<forall>j<25. miso (nread s + 2 + j) AND 0x30 = 0) \<and> miso (nread s + 27) = 2"
  then have clr: "\<forall>j<25. miso (nread s + 2 + j) AND 0x30 = 0" and two: "miso (nread s + 27) = 2"
    by simp_all
  show "fst (requestCard (sim_platform miso) reqMode s) = 1"
    using requestCard_sim_timeout(1) [OF clr, of reqMode] two by simp
  show "reg_reads (new_events s (snd (requestCard (sim_platform miso) reqMode s))) =
            [(BitFramingReg, miso (nread s)), (BitFramingReg, miso (nread s + 1))]
            @ map (\<lambda>j. (ComIrqReg, miso j)) [nread s + 2..<nread s + 27]
            @ [(FIFOLevelReg, 2)]"
    using requestCard_sim_timeout(3) [OF clr, of reqMode] two by simp
  have "fst (requestCard (sim_platform miso) PICC_REQIDL s) = 1"
    using requestCard_sim_timeout(1) [OF clr, of PICC_REQIDL] two by simp
  then show "getID (sim_platform miso) s =
            anticollision (sim_platform miso)
              (snd (requestCard (sim_platform miso) PICC_REQIDL s))"
    by (simp add: getID_unfold)
qed

text \<open>
  Two runs of C9: a chip that never raises an interrupt and reports two FIFO bytes after
  the 25 polls, and a chip that raises \<^verbatim>\<open>IdleIRq\<close> at the first poll. Both return 1.
\<close>

theorem requestCard_ignores_irq_witness:
  "fst (requestCard (sim_platform (\<lambda>n. if n = 27 then 2 else 0)) PICC_REQIDL sim0) = 1
   \<and> fst (requestCard (sim_platform (script [0, 0, 0x10, 2])) PICC_REQIDL sim0) =
       fst (requestCard (sim_platform (\<lambda>n. if n = 27 then 2 else 0)) PICC_REQIDL sim0)"
proof -
  let ?slow = "\<lambda>n::nat. if n = 27 then 2 else (0 :: 8 word)"
  let ?fast = "script [0, 0, 0x10, 2]"
  have clr: "\<forall>j<25. ?slow (nread sim0 + 2 + j) AND 0x30 = 0"
    by (simp add: sim0_def)
  have two: "?slow (nread sim0 + 27) = 2"
    by (simp add: sim0_def)
  have irq: "?fast (nread sim0 + 2) AND 0x30 \<noteq> 0"
    by (simp add: sim0_def)
  have f1: "final_read sim0 (snd (requestCard (sim_platform ?fast) PICC_REQIDL sim0)) = 2"
    unfolding final_read_def requestCard_sim_first(3) [of ?fast sim0 PICC_REQIDL, OF irq]
    by (simp add: sim0_def)
  have f2: "final_read sim0 (snd (requestCard (sim_platform ?slow) PICC_REQIDL sim0)) = 2"
    unfolding final_read_def requestCard_sim_timeout(3) [of ?slow sim0 PICC_REQIDL, OF clr]
    by (simp add: sim0_def)
  from requestCard_ignores_irq [of ?slow PICC_REQIDL sim0 sim0 ?fast PICC_REQIDL]
  have r1: "fst (requestCard (sim_platform ?slow) PICC_REQIDL sim0) = 1"
    using clr two by blast
  from requestCard_ignores_irq [of ?fast PICC_REQIDL sim0 sim0 ?slow PICC_REQIDL]
  have r2: "fst (requestCard (sim_platform ?fast) PICC_REQIDL sim0) =
       fst (requestCard (sim_platform ?slow) PICC_REQIDL sim0)"
    using f1 f2 by simp
  show ?thesis
    using r1 r2 by (intro conjI)
qed

section \<open>Claims on the anti-collision exchange\<close>

text \<open>
  Claim C10. When the \<^verbatim>\<open>FIFOLevelReg\<close> read of \<^verbatim>\<open>anticollision\<close> (the third byte it
  receives) is not 5, it returns the empty string and the run ends with that read: the
  bus trace holds no read of \<^verbatim>\<open>FIFODataReg\<close>, so the chip's FIFO is left as it was. When
  the read is 5, exactly five reads of \<^verbatim>\<open>FIFODataReg\<close> follow. The statement gives the
  result, the whole trace, the register reads in it and the number of \<^verbatim>\<open>FIFODataReg\<close>
  reads, in both cases.
\<close>

theorem anticollision_fifo_reads:
  "anticollision (sim_platform miso) s =
     (if miso (nread s + 2) = 5
      then (spec_uid (map miso [nread s + 3..<nread s + 8]),
            s\<lparr>log := log s
                   @ anticollision_send_events (miso (nread s)) (miso (nread s + 1))
                   @ read_events FIFOLevelReg 5
                   @ fifo_events (map miso [nread s + 3..<nread s + 8]),
              nread := nread s + 8\<rparr>)
      else ('''',
            s\<lparr>log := log s
                   @ anticollision_send_events (miso (nread s)) (miso (nread s + 1))
                   @ read_events FIFOLevelReg (miso (nread s + 2)),
              nread := nread s + 3\<rparr>))
   \<and> reg_reads (new_events s (snd (anticollision (sim_platform miso) s))) =
       [(BitFramingReg, miso (nread s)), (BitFramingReg, miso (nread s + 1)),
        (FIFOLevelReg, miso (nread s + 2))]
       @ (if miso (nread s + 2) = 5
          then map (\<lambda>j. (FIFODataReg, miso j)) [nread s + 3..<nread s + 8] else [])
   \<and> length (filter (\<lambda>r. fst r = FIFODataReg)
         (reg_reads (new_events s (snd (anticollision (sim_platform miso) s))))) =
       (if miso (nread s + 2) = 5 then 5 else 0)"
proof -
  have reads: "reg_reads (new_events s (snd (anticollision (sim_platform miso) s))) =
       [(BitFramingReg, miso (nread s)), (BitFramingReg, miso (nread s + 1)),
        (FIFOLevelReg, miso (nread s + 2))]
       @ (if miso (nread s + 2) = 5
          then map (\<lambda>j. (FIFODataReg, miso j)) [nread s + 3..<nread s + 8] else [])"
    by (simp add: anticollision_sim FIFOLevelReg_def comp_def del: upt_Suc)
  have cnt: "length (filter (\<lambda>r. fst r = FIFODataReg)
         (reg_reads (new_events s (snd (anticollision (sim_platform miso) s))))) =
       (if miso (nread s + 2) = 5 then 5 else 0)"
    unfolding reads
    by (simp add: BitFramingReg_def FIFOLevelReg_def FIFODataReg_def comp_def del: upt_Suc)
  show ?thesis
    using reads cnt by (simp add: anticollision_sim del: upt_Suc)
qed

section \<open>Claims on the entry point\<close>

text \<open>
  Claim C1. When the presence poll reports exactly two FIFO bytes (\<^verbatim>\<open>requestCard\<close>
  returns 1) and the \<^verbatim>\<open>FIFOLevelReg\<close> read of the anti-collision exchange that follows is
  5, \<^verbatim>\<open>getID\<close> returns the two-digit uppercase hexadecimal encodings of the five bytes
  read from \<^verbatim>\<open>FIFODataReg\<close>, in order: a string of 10 characters. A byte from 0x00 to
  0x0F is formatted by the driver's loop with a leading zero. Here \<open>t\<close> is the world
  after \<^verbatim>\<open>requestCard\<close>; the anti-collision exchange receives the bytes \<open>nread t\<close>,
  \<open>nread t + 1\<close> (both from \<^verbatim>\<open>BitFramingReg\<close>), \<open>nread t + 2\<close> (the FIFO level) and
  \<open>nread t + 3\<close> to \<open>nread t + 7\<close> (the FIFO data) of the stream.
\<close>

theorem getID_uid:
  fixes miso :: "nat \<Rightarrow> 8 word" and s :: sim
  defines "t \<equiv> snd (requestCard (sim_platform miso) PICC_REQIDL s)"
  assumes presence: "fst (requestCard (sim_platform miso) PICC_REQIDL s) = 1"
    and level: "miso (nread t + 2) = 5"
  shows "fst (getID (sim_platform miso) s) = spec_uid (map miso [nread t + 3..<nread t + 8])
    \<and> length (fst (getID (sim_platform miso) s)) = 10
    \<and> reg_reads (new_events t (snd (getID (sim_platform miso) s))) =
        [(BitFramingReg, miso (nread t)), (BitFramingReg, miso (nread t + 1)),
         (FIFOLevelReg, 5)]
        @ map (\<lambda>j. (FIFODataReg, miso j)) [nread t + 3..<nread t + 8]
    \<and> (\<forall>b :: 8 word. unat b < 16 \<longrightarrow>
          anticollision_format [uint b] '''' = [CHR ''0'', upperDigit (unat b)])"
proof -
  have run: "getID (sim_platform miso) s = anticollision (sim_platform miso) t"
    using presence by (simp add: getID_unfold t_def)
  have uid: "fst (getID (sim_platform miso) s) = spec_uid (map miso [nread t + 3..<nread t + 8])"
    using level by (simp add: run anticollision_sim del: upt_Suc)
  have len: "length (fst (getID (sim_platform miso) s)) = 10"
    unfolding uid by (simp add: length_spec_uid del: upt_Suc)
  have reads: "reg_reads (new_events t (snd (getID (sim_platform miso) s))) =
        [(BitFramingReg, miso (nread t)), (BitFramingReg, miso (nread t + 1)),
         (FIFOLevelReg, 5)]
        @ map (\<lambda>j. (FIFODataReg, miso j)) [nread t + 3..<nread t + 8]"
    using level by (simp add: run anticollision_sim FIFOLevelReg_def comp_def del: upt_Suc)
  show ?thesis
    using uid len reads format_small by blast
qed

text \<open>
  The run of C1 in the specification: the FIFO holds 04 AA BB CC DD, and the UID is
  \<^verbatim>\<open>04AABBCCDD\<close>.
\<close>

theorem getID_uid_witness:
  "fst (getID (sim_platform
          (script [0, 0, 0x10, 2, 0, 0, 5, 0x04, 0xAA, 0xBB, 0xCC, 0xDD])) sim0) =
     ''04AABBCCDD''
   \<and> anticollision_format [0x04] '''' = ''04''"
proof -
  let ?miso = "script [0, 0, 0x10, 2, 0, 0, 5, 0x04, 0xAA, 0xBB, 0xCC, 0xDD]"
  let ?t = "snd (requestCard (sim_platform ?miso) PICC_REQIDL sim0)"
  have irq: "?miso (nread sim0 + 2) AND 0x30 \<noteq> 0"
    by (simp add: sim0_def)
  have presence: "fst (requestCard (sim_platform ?miso) PICC_REQIDL sim0) = 1"
    using requestCard_sim_first(1) [of ?miso sim0 PICC_REQIDL, OF irq] by (simp add: sim0_def)
  have t: "nread ?t = 4"
    using requestCard_sim_first(2) [of ?miso sim0 PICC_REQIDL, OF irq] by (simp add: sim0_def)
  have level: "?miso (nread ?t + 2) = 5"
    unfolding t by simp
  have idx: "[4 + 3..<4 + 8] = [7, 8, 9, 10, 11 :: nat]"
    by (simp add: upt_rec)
  from getID_uid [of ?miso sim0, OF presence level]
  have uid: "fst (getID (sim_platform ?miso) sim0) = spec_uid (map ?miso [4 + 3..<4 + 8])"
    and zero: "\<forall>b :: 8 word. unat b < 16 \<longrightarrow>
          anticollision_format [uint b] '''' = [CHR ''0'', upperDigit (unat b)]"
    unfolding t by blast+
  have "fst (getID (sim_platform ?miso) sim0) = ''04AABBCCDD''"
    unfolding uid idx by (simp add: spec_uid_def spec_hex2_def upperDigit_def)
  moreover have "anticollision_format [0x04] '''' = ''04''"
    using zero [rule_format, of 4] by (simp add: upperDigit_def)
  ultimately show ?thesis
    by (intro conjI)
qed

text \<open>
  Claim C2. When the \<^verbatim>\<open>FIFOLevelReg\<close> read of \<^verbatim>\<open>anticollision\<close> (the third register read
  of the exchange, byte \<open>nread s + 2\<close> of the stream) is anything but 5, the result is
  the empty string. So \<^verbatim>\<open>getID\<close> returns either the empty string or the encoding of
  five bytes: 10 characters, each an uppercase hexadecimal digit. Received bytes are
  8-bit values.
\<close>

theorem anticollision_wrong_level:
  "(miso (nread s + 2) \<noteq> 5 \<longrightarrow> fst (anticollision (sim_platform miso) s) = '''')
   \<and> reg_reads (new_events s (snd (anticollision (sim_platform miso) s))) ! 2 =
       (FIFOLevelReg, miso (nread s + 2))
   \<and> (fst (getID (sim_platform miso) s) = ''''
      \<or> (\<exists>bs. length bs = 5
            \<and> fst (getID (sim_platform miso) s) = spec_uid bs
            \<and> length (fst (getID (sim_platform miso) s)) = 10
            \<and> set (fst (getID (sim_platform miso) s)) \<subseteq> set ''0123456789ABCDEF''))"
proof (intro conjI impI)
  assume "miso (nread s + 2) \<noteq> 5"
  then show "fst (anticollision (sim_platform miso) s) = ''''"
    by (simp add: anticollision_sim)
next
  show "reg_reads (new_events s (snd (anticollision (sim_platform miso) s))) ! 2 =
       (FIFOLevelReg, miso (nread s + 2))"
    by (simp add: anticollision_sim FIFOLevelReg_def del: upt_Suc)
next
  from getID_sim_cases [of miso s]
  show "fst (getID (sim_platform miso) s) = ''''
      \<or> (\<exists>bs. length bs = 5
            \<and> fst (getID (sim_platform miso) s) = spec_uid bs
            \<and> length (fst (getID (sim_platform miso) s)) = 10
            \<and> set (fst (getID (sim_platform miso) s)) \<subseteq> set ''0123456789ABCDEF'')"
  proof
    assume "fst (getID (sim_platform miso) s) = ''''"
    then show ?thesis by (rule disjI1)
  next
    assume "\<exists>bs. length bs = 5 \<and> fst (getID (sim_platform miso) s) = spec_uid bs"
    then obtain bs where l: "length bs = 5" and u: "fst (getID (sim_platform miso) s) = spec_uid bs"
      by blast
    have "length (spec_uid bs) = 10"
      using l by (simp add: length_spec_uid)
    then show ?thesis
      using l u set_spec_uid [of bs] by (intro disjI2 exI [of _ bs]) (simp only: simp_thms)
  qed
qed

text \<open>Runs of C2 with a FIFO level of 0, of 4 and of 7.\<close>

theorem anticollision_wrong_level_witness:
  "fst (anticollision (sim_platform (script [0, 0, 0])) sim0) = ''''
   \<and> fst (anticollision (sim_platform (script [0, 0, 4, 1, 2, 3, 4])) sim0) = ''''
   \<and> fst (anticollision (sim_platform (script [0, 0, 7, 1, 2, 3, 4, 5, 6, 7])) sim0) = ''''"
proof (intro conjI)
  have "script [0, 0, 0] (nread sim0 + 2) \<noteq> 5"
    by (simp add: sim0_def)
  with anticollision_wrong_level [of "script [0, 0, 0]" sim0]
  show "fst (anticollision (sim_platform (script [0, 0, 0])) sim0) = ''''"
    by blast
  have "script [0, 0, 4, 1, 2, 3, 4] (nread sim0 + 2) \<noteq> 5"
    by (simp add: sim0_def)
  with anticollision_wrong_level [of "script [0, 0, 4, 1, 2, 3, 4]" sim0]
  show "fst (anticollision (sim_platform (script [0, 0, 4, 1, 2, 3, 4])) sim0) = ''''"
    by blast
  have "script [0, 0, 7, 1, 2, 3, 4, 5, 6, 7] (nread sim0 + 2) \<noteq> 5"
    by (simp add: sim0_def)
  with anticollision_wrong_level [of "script [0, 0, 7, 1, 2, 3, 4, 5, 6, 7]" sim0]
  show "fst (anticollision (sim_platform (script [0, 0, 7, 1, 2, 3, 4, 5, 6, 7])) sim0) = ''''"
    by blast
qed

text \<open>
  Claim C3. When \<^verbatim>\<open>requestCard\<close> does not return 1, \<^verbatim>\<open>getID\<close> returns the empty string
  and the world it leaves is the world \<^verbatim>\<open>requestCard\<close> left: nothing of the
  anti-collision exchange reaches the bus. This holds on every platform. On the scripted
  chip, \<^verbatim>\<open>requestCard\<close> does not return 1 exactly when its final read, of
  \<^verbatim>\<open>FIFOLevelReg\<close>, is not 2, and that read is then the last register read of \<^verbatim>\<open>getID\<close>.
\<close>

theorem getID_no_card:
  "(fst (requestCard h PICC_REQIDL w) \<noteq> 1
      \<longrightarrow> getID h w = ('''', snd (requestCard h PICC_REQIDL w)))
   \<and> (fst (requestCard (sim_platform miso) PICC_REQIDL s) \<noteq> 1
      \<longrightarrow> final_read s (snd (getID (sim_platform miso) s)) \<noteq> 2
        \<and> fst (last (reg_reads (new_events s (snd (getID (sim_platform miso) s))))) =
            FIFOLevelReg
        \<and> new_events s (snd (getID (sim_platform miso) s)) =
            new_events s (snd (requestCard (sim_platform miso) PICC_REQIDL s)))
   \<and> ((fst (requestCard (sim_platform miso) PICC_REQIDL s) \<noteq> 1) =
       (final_read s (snd (requestCard (sim_platform miso) PICC_REQIDL s)) \<noteq> 2))"
proof (intro conjI impI)
  assume "fst (requestCard h PICC_REQIDL w) \<noteq> 1"
  then show "getID h w = ('''', snd (requestCard h PICC_REQIDL w))"
    by (simp add: getID_unfold)
next
  assume a: "fst (requestCard (sim_platform miso) PICC_REQIDL s) \<noteq> 1"
  then have same: "snd (getID (sim_platform miso) s) =
      snd (requestCard (sim_platform miso) PICC_REQIDL s)"
    by (simp add: getID_unfold)
  show "final_read s (snd (getID (sim_platform miso) s)) \<noteq> 2"
    using a requestCard_final_read [of miso PICC_REQIDL s] unfolding same
    by (simp split: if_splits)
  show "fst (last (reg_reads (new_events s (snd (getID (sim_platform miso) s))))) = FIFOLevelReg"
    using requestCard_final_read [of miso PICC_REQIDL s] unfolding same by blast
  show "new_events s (snd (getID (sim_platform miso) s)) =
            new_events s (snd (requestCard (sim_platform miso) PICC_REQIDL s))"
    unfolding same ..
next
  show "(fst (requestCard (sim_platform miso) PICC_REQIDL s) \<noteq> 1) =
       (final_read s (snd (requestCard (sim_platform miso) PICC_REQIDL s)) \<noteq> 2)"
    using requestCard_final_read [of miso PICC_REQIDL s] by (simp split: if_splits)
qed

text \<open>
  A run of C3: the chip answers zero to every read, so the 25 polls time out and the
  FIFO level is 0; \<^verbatim>\<open>getID\<close> makes the 28 register reads of \<^verbatim>\<open>requestCard\<close> and no more.
\<close>

theorem getID_no_card_witness:
  "getID (sim_platform (script [])) sim0 =
     ('''', snd (requestCard (sim_platform (script [])) PICC_REQIDL sim0))
   \<and> length (reg_reads (new_events sim0 (snd (getID (sim_platform (script [])) sim0)))) = 28"
proof -
  let ?miso = "script []"
  have clr: "\<forall>j<25. ?miso (nread sim0 + 2 + j) AND 0x30 = 0"
    by (simp add: script_def)
  have absent: "fst (requestCard (sim_platform ?miso) PICC_REQIDL sim0) \<noteq> 1"
    using requestCard_sim_timeout(1) [of ?miso sim0 PICC_REQIDL, OF clr] by (simp add: script_def)
  from getID_no_card [of "sim_platform ?miso" sim0 ?miso sim0] absent
  have run: "getID (sim_platform ?miso) sim0 =
      ('''', snd (requestCard (sim_platform ?miso) PICC_REQIDL sim0))"
    and evs: "new_events sim0 (snd (getID (sim_platform ?miso) sim0)) =
            new_events sim0 (snd (requestCard (sim_platform ?miso) PICC_REQIDL sim0))"
    by blast+
  have "length (reg_reads (new_events sim0 (snd (getID (sim_platform ?miso) sim0)))) = 28"
    unfolding evs requestCard_sim_timeout(3) [of ?miso sim0 PICC_REQIDL, OF clr]
    by simp
  with run show ?thesis
    by (intro conjI)
qed

section \<open>Claims on the soft reset\<close>

text \<open>
  Claim C5. \<^verbatim>\<open>resetModule\<close> writes \<^verbatim>\<open>PCD_SOFTRESET\<close> to \<^verbatim>\<open>CommandReg\<close>, pauses 50 units and
  then polls \<^verbatim>\<open>CommandReg\<close>, with a pause of one unit after every poll that reads bit 4
  set. The polls receive the bytes \<open>nread s\<close>, \<open>nread s + 1\<close>, ... of the stream. The call
  returns if and only if some poll reads bit 4 clear; it then has made \<open>k + 1\<close> polls,
  where \<open>k\<close> is the number of busy polls before the first clear one, and the trace is the
  one given. The loop has no bound: against a chip whose \<^verbatim>\<open>CommandReg\<close> always reads with
  bit 4 set the call never returns (the value \<open>None\<close>).
\<close>

theorem resetModule_terminates_iff:
  "((\<exists>t. resetModule (sim_platform miso) s = Some t) = (\<exists>j. \<not> bit (miso (nread s + j)) 4))
   \<and> ((\<forall>j. bit (miso (nread s + j)) 4) \<longrightarrow> resetModule (sim_platform miso) s = None)
   \<and> (\<forall>k. (\<forall>j<k. bit (miso (nread s + j)) 4) \<and> \<not> bit (miso (nread s + k)) 4 \<longrightarrow>
          resetModule (sim_platform miso) s =
            Some (s\<lparr>log := log s
                          @ write_events CommandReg PCD_SOFTRESET
                          @ [Pause 50]
                          @ busy_events (map miso [nread s..<nread s + k])
                          @ read_events CommandReg (miso (nread s + k)),
                    nread := nread s + k + 1\<rparr>))"
proof (intro conjI allI impI)
  let ?s1 = "s\<lparr>log := log s @ write_events CommandReg PCD_SOFTRESET @ [Pause 50]\<rparr>"
  have returns: "resetModule (sim_platform miso) s =
            Some (s\<lparr>log := log s
                          @ write_events CommandReg PCD_SOFTRESET
                          @ [Pause 50]
                          @ busy_events (map miso [nread s..<nread s + k])
                          @ read_events CommandReg (miso (nread s + k)),
                    nread := nread s + k + 1\<rparr>)"
    if "(\<forall>j<k. bit (miso (nread s + j)) 4) \<and> \<not> bit (miso (nread s + k)) 4" for k
  proof -
    from that have busy: "\<forall>j<k. bit (miso (nread ?s1 + j)) 4"
      and clear: "\<not> bit (miso (nread ?s1 + k)) 4"
      by simp_all
    show ?thesis
      unfolding resetModule_sim resetModule_loop_returns [OF busy clear]
      by (simp del: upt_Suc)
  qed
  show "resetModule (sim_platform miso) s =
            Some (s\<lparr>log := log s
                          @ write_events CommandReg PCD_SOFTRESET
                          @ [Pause 50]
                          @ busy_events (map miso [nread s..<nread s + k])
                          @ read_events CommandReg (miso (nread s + k)),
                    nread := nread s + k + 1\<rparr>)"
    if "(\<forall>j<k. bit (miso (nread s + j)) 4) \<and> \<not> bit (miso (nread s + k)) 4" for k
    using that by (rule returns)
  show "resetModule (sim_platform miso) s = None" if "\<forall>j. bit (miso (nread s + j)) 4"
  proof -
    from that have "\<forall>j. bit (miso (nread ?s1 + j)) 4"
      by simp
    then show ?thesis
      unfolding resetModule_sim by (rule resetModule_loop_None)
  qed
  show "(\<exists>t. resetModule (sim_platform miso) s = Some t) = (\<exists>j. \<not> bit (miso (nread s + j)) 4)"
  proof
    assume "\<exists>t. resetModule (sim_platform miso) s = Some t"
    then obtain t where "resetModule_loop (sim_platform miso) ?s1 = Some t"
      unfolding resetModule_sim by blast
    from resetModule_loop_Some [OF this refl] show "\<exists>j. \<not> bit (miso (nread s + j)) 4"
      by simp
  next
    assume "\<exists>j. \<not> bit (miso (nread s + j)) 4"
    then obtain k where clear: "\<not> bit (miso (nread s + k)) 4"
      and least: "\<forall>j<k. bit (miso (nread s + j)) 4"
      using exists_least_iff [of "\<lambda>j. \<not> bit (miso (nread s + j)) 4"] by blast
    from returns [of k] clear least show "\<exists>t. resetModule (sim_platform miso) s = Some t"
      by blast
  qed
qed

text \<open>
  Two runs of C5: a chip that is busy for three polls and ready at the fourth (the call
  returns after four reads), and a chip that is busy for ever.
\<close>

theorem resetModule_terminates_iff_witness:
  "map_option nread (resetModule (sim_platform (script [0x10, 0x10, 0x10, 0])) sim0) = Some 4
   \<and> resetModule (sim_platform (\<lambda>n. 0x10)) sim0 = None"
proof -
  let ?miso = "script [0x10, 0x10, 0x10, 0]"
  have busy: "\<forall>j<3. bit (?miso (nread sim0 + j)) 4"
  proof (intro allI impI)
    fix j :: nat
    assume "j < 3"
    then have "j = 0 \<or> j = 1 \<or> j = 2" by auto
    then show "bit (?miso (nread sim0 + j)) 4"
      by (auto simp add: sim0_def)
  qed
  have clear: "\<not> bit (?miso (nread sim0 + 3)) 4"
    by (simp add: sim0_def)
  have stuck: "\<forall>j. bit ((\<lambda>n::nat. 0x10 :: 8 word) (nread sim0 + j)) 4"
    by simp
  from resetModule_terminates_iff [of ?miso sim0] busy clear
  have "resetModule (sim_platform ?miso) sim0 =
            Some (sim0\<lparr>log := log sim0
                          @ write_events CommandReg PCD_SOFTRESET
                          @ [Pause 50]
                          @ busy_events (map ?miso [nread sim0..<nread sim0 + 3])
                          @ read_events CommandReg (?miso (nread sim0 + 3)),
                    nread := nread sim0 + 3 + 1\<rparr>)"
    by blast
  then have a: "map_option nread (resetModule (sim_platform ?miso) sim0) = Some 4"
    by (simp add: sim0_def del: upt_Suc)
  from resetModule_terminates_iff [of "\<lambda>n. 0x10" sim0] stuck
  have b: "resetModule (sim_platform (\<lambda>n. 0x10)) sim0 = None"
    by blast
  from a b show ?thesis
    by (intro conjI)
qed

section \<open>Claims on the bit-mask helpers\<close>

text \<open>
  Claim C7. On the simulated register file, for every address, mask and register
  contents, \<^verbatim>\<open>setBitMask\<close> run twice leaves the chip as \<^verbatim>\<open>setBitMask\<close> run once leaves it;
  the addressed register (bits 5 to 0 of the address select it) then holds its old value
  with the low byte of the mask ORed in.
\<close>

theorem setBitMask_idempotent:
  "setBitMask regfile_platform addr m (setBitMask regfile_platform addr m c) =
     setBitMask regfile_platform addr m c
   \<and> regs (setBitMask regfile_platform addr m (setBitMask regfile_platform addr m c)) (addr mod 64) =
       regs (setBitMask regfile_platform addr m c) (addr mod 64)
   \<and> regs (setBitMask regfile_platform addr m c) (addr mod 64) =
       regs c (addr mod 64) OR word_of_int m"
  by (simp add: setBitMask_regfile or.assoc)

text \<open>
  Claim C8. On the simulated register file, for every address, mask and register
  contents, \<^verbatim>\<open>clearBitMask\<close> followed by \<^verbatim>\<open>setBitMask\<close> with the same mask leaves the
  addressed register with every bit of the mask set and every other bit as it was
  before: the old value with the low byte of the mask ORed in.
\<close>

theorem clearBitMask_then_setBitMask:
  "regs (setBitMask regfile_platform addr m (clearBitMask regfile_platform addr m c)) (addr mod 64) =
     regs c (addr mod 64) OR word_of_int m
   \<and> regs (setBitMask regfile_platform addr m (clearBitMask regfile_platform addr m c)) (addr mod 64)
       AND word_of_int m = word_of_int m
   \<and> regs (setBitMask regfile_platform addr m (clearBitMask regfile_platform addr m c)) (addr mod 64)
       AND NOT (word_of_int m) = regs c (addr mod 64) AND NOT (word_of_int m)
   \<and> (\<forall>n. bit (regs (setBitMask regfile_platform addr m
                      (clearBitMask regfile_platform addr m c)) (addr mod 64)) n =
            (bit (regs c (addr mod 64)) n \<or> (n < 8 \<and> bit m n)))"
proof -
  let ?v = "regs c (addr mod 64)"
  let ?m = "word_of_int m :: 8 word"
  have r: "regs (setBitMask regfile_platform addr m (clearBitMask regfile_platform addr m c))
      (addr mod 64) = ?v OR ?m"
  proof -
    have "regs (setBitMask regfile_platform addr m (clearBitMask regfile_platform addr m c))
      (addr mod 64) = (?v AND NOT ?m) OR ?m"
      by (simp add: setBitMask_regfile clearBitMask_regfile)
    also have "\<dots> = ?v OR ?m"
      by (rule bit_word_eqI) (auto simp add: bit_simps)
    finally show ?thesis .
  qed
  have a: "(?v OR ?m) AND ?m = ?m"
    by (rule bit_word_eqI) (auto simp add: bit_simps)
  have b: "(?v OR ?m) AND NOT ?m = ?v AND NOT ?m"
    by (rule bit_word_eqI) (auto simp add: bit_simps)
  have c: "\<forall>n. bit (?v OR ?m) n = (bit ?v n \<or> (n < 8 \<and> bit m n))"
    by (auto simp add: bit_simps)
  show ?thesis
    unfolding r using a b c by (intro conjI) simp_all
qed

end
